theory Spec2Isabelle
  imports Complex_Main "HOL-Library.Word"
begin

section \<open>AM demodulation pipeline of fft2.py\<close>

text \<open>
  The pipeline of \<^verbatim>\<open>src/audio-folder/fft2.py\<close>: loading a waveform, its one-sided
  magnitude spectrum, carrier detection by arg-max, coherent demodulation, band-pass
  filtering and saving. NumPy arrays of float64 are lists of \<^typ>\<open>real\<close>: every finite
  float is a real number and comparisons of finite floats are exact. The frequency bins
  are compared with fixed frequencies, where the last bit decides, so the operations
  that compute them round, with the rounding \<open>fl\<close> a parameter; elsewhere the arithmetic
  is read without rounding. Where the source can leave the finite floats from finite
  inputs, in the array divisions of \<^verbatim>\<open>demodulate_am\<close> and \<^verbatim>\<open>save_audio\<close>, the
  infinities and NaN are values of the model. Printing and plotting return nothing that
  the computation uses and are left out.
\<close>

subsection \<open>Exceptions\<close>

text \<open>
  The exceptions of the pipeline; \<open>StructError\<close> is \<^verbatim>\<open>struct.error\<close>, raised when a
  value does not fit a field of the WAV header.
\<close>

datatype error = ValueError | IndexError | ZeroDivisionError | StructError

subsection \<open>numpy.argmax\<close>

text \<open>
  \<^verbatim>\<open>np.argmax\<close> on a one-dimensional array: the index of the first occurrence of the
  maximum; an empty array raises ValueError. On a boolean array (\<open>False < True\<close>) this
  is the index of the first True, and 0 when there is none.
\<close>

fun argmax_loop :: "'a::linorder list \<Rightarrow> nat \<Rightarrow> nat \<Rightarrow> 'a \<Rightarrow> nat" where
  "argmax_loop [] i best_idx best = best_idx"
| "argmax_loop (x # xs) i best_idx best =
     (if best < x then argmax_loop xs (Suc i) i x
      else argmax_loop xs (Suc i) best_idx best)"

definition argmax :: "'a::linorder list \<Rightarrow> error + nat" where
  "argmax xs = (case xs of [] \<Rightarrow> Inl ValueError | x # rest \<Rightarrow> Inr (argmax_loop rest 1 0 x))"

subsection \<open>find_carrier_frequency\<close>

text \<open>
  \<^verbatim>\<open>
  start_idx = np.argmax(frequencies > 1000)
  peak_idx = np.argmax(magnitudes[start_idx:]) + start_idx
  carrier_freq = frequencies[peak_idx]
  \<close>
  The slice \<^verbatim>\<open>magnitudes[start_idx:]\<close> is \<open>drop start_idx magnitudes\<close>; the index
  \<open>peak_idx\<close> is never negative, so the read raises IndexError exactly when it is
  beyond the end.
\<close>

definition find_carrier_frequency :: "real list \<Rightarrow> real list \<Rightarrow> error + real" where
  "find_carrier_frequency frequencies magnitudes =
     (case argmax (map (\<lambda>f. 1000 < f) frequencies) of
        Inl e \<Rightarrow> Inl e
      | Inr start_idx \<Rightarrow>
          (case argmax (drop start_idx magnitudes) of
             Inl e \<Rightarrow> Inl e
           | Inr k \<Rightarrow>
               (let peak_idx = k + start_idx
                in if peak_idx < length frequencies then Inr (frequencies ! peak_idx)
                   else Inl IndexError)))"

subsection \<open>Non-finite floats\<close>

text \<open>
  NumPy's array division does not raise on a zero divisor: it warns and stores
  \<open>inf\<close> or \<open>nan\<close>. The arrays that the source computes with such a division hold
  values of \<open>npfloat\<close>; multiplication and cosine follow IEEE 754 on the special values.
\<close>

datatype npfloat = Finite real | PosInf | NegInf | NaN

definition inf_times :: "real \<Rightarrow> npfloat" where
  "inf_times a = (if a = 0 then NaN else if 0 < a then PosInf else NegInf)"

definition np_true_divide :: "real \<Rightarrow> real \<Rightarrow> npfloat" where
  "np_true_divide x y = (if y = 0 then inf_times x else Finite (x / y))"

fun np_multiply :: "npfloat \<Rightarrow> npfloat \<Rightarrow> npfloat" where
  "np_multiply (Finite a) (Finite b) = Finite (a * b)"
| "np_multiply NaN y = NaN"
| "np_multiply x NaN = NaN"
| "np_multiply (Finite a) PosInf = inf_times a"
| "np_multiply (Finite a) NegInf = inf_times (- a)"
| "np_multiply PosInf (Finite b) = inf_times b"
| "np_multiply NegInf (Finite b) = inf_times (- b)"
| "np_multiply PosInf PosInf = PosInf"
| "np_multiply PosInf NegInf = NegInf"
| "np_multiply NegInf PosInf = NegInf"
| "np_multiply NegInf NegInf = PosInf"

fun np_cos :: "npfloat \<Rightarrow> npfloat" where
  "np_cos (Finite x) = Finite (cos x)"
| "np_cos v = NaN"

subsection \<open>Rounding\<close>

text \<open>
  The result of a floating-point operation is the rounded exact result. \<open>round_double\<close>
  is the rounding of float64, to the nearest number with a 53-bit significand, ties to
  the even significand; the exponent is unbounded, so overflow and underflow are not
  modelled. \<open>exact\<close> is arithmetic without rounding.
\<close>

definition exact :: "real \<Rightarrow> real" where
  "exact x = x"

definition round_half_even :: "real \<Rightarrow> int" where
  "round_half_even x =
     (let f = \<lfloor>x\<rfloor>; r = x - of_int f
      in if r < 1 / 2 then f else if 1 / 2 < r then f + 1 else if even f then f else f + 1)"

definition round_double :: "real \<Rightarrow> real" where
  "round_double x =
     (if x = 0 then 0
      else (let e = \<lfloor>log 2 \<bar>x\<bar>\<rfloor>; ulp = 2 powr (of_int e - 52)
            in of_int (round_half_even (x / ulp)) * ulp))"

subsection \<open>analyze_spectrum\<close>

text \<open>
  \<^verbatim>\<open>np.fft.rfftfreq(n, d)\<close> computes \<^verbatim>\<open>val = 1.0 / (n * d)\<close> on Python scalars
  (ZeroDivisionError when the product is zero) and returns
  \<^verbatim>\<open>arange(0, n // 2 + 1) * val\<close>: a product, a quotient and one product for each bin,
  each rounded by \<open>fl\<close>. The lengths and indices are integers below \<open>2\<^sup>5\<^sup>3\<close>, which a
  float holds exactly. \<^verbatim>\<open>np.fft.rfft(a)\<close> returns the coefficients
  \<open>A\<^sub>k = \<Sum>\<^sub>m a\<^sub>m exp (- 2 \<pi> i m k / n)\<close> for \<open>k = 0, \<dots>, n div 2\<close> and rejects an empty
  input with ValueError.
\<close>

definition arange :: "nat \<Rightarrow> real list" where
  "arange n = map real [0..<n]"

definition rfftfreq :: "(real \<Rightarrow> real) \<Rightarrow> nat \<Rightarrow> real \<Rightarrow> error + real list" where
  "rfftfreq fl n d =
     (if fl (real n * d) = 0 then Inl ZeroDivisionError
      else (let val = fl (1 / fl (real n * d)); N = n div 2 + 1
            in Inr (map (\<lambda>r. fl (r * val)) (arange N))))"

definition dft_coefficient :: "real list \<Rightarrow> nat \<Rightarrow> complex" where
  "dft_coefficient a k =
     sum_list (map (\<lambda>m. of_real (a ! m) *
                         exp (- (2 * of_real pi * \<i> * of_nat m * of_nat k / of_nat (length a))))
                   [0..<length a])"

definition rfft :: "real list \<Rightarrow> error + complex list" where
  "rfft a =
     (let n = length a
      in if n = 0 then Inl ValueError
         else Inr (map (dft_coefficient a) [0..<n div 2 + 1]))"

text \<open>
  \<^verbatim>\<open>
  n = len(signal_data)
  frequencies = np.fft.rfftfreq(n, 1/sample_rate)
  signal_fft = np.fft.rfft(signal_data)
  magnitudes = np.abs(signal_fft)
  \<close>
  The sample rate is a Python number, so \<^verbatim>\<open>1/sample_rate\<close> raises on zero and is
  rounded otherwise.
\<close>

definition analyze_spectrum ::
  "(real \<Rightarrow> real) \<Rightarrow> real list \<Rightarrow> real \<Rightarrow> error + (real list \<times> real list)" where
  "analyze_spectrum fl signal_data sample_rate =
     (let n = length signal_data
      in if sample_rate = 0 then Inl ZeroDivisionError
         else (case rfftfreq fl n (fl (1 / sample_rate)) of
                 Inl e \<Rightarrow> Inl e
               | Inr frequencies \<Rightarrow>
                   (case rfft signal_data of
                      Inl e \<Rightarrow> Inl e
                    | Inr signal_fft \<Rightarrow> Inr (frequencies, map cmod signal_fft))))"

text \<open>
  Steps 2 and 3 of \<^verbatim>\<open>main\<close>, from the loaded signal to the carrier:
  \<^verbatim>\<open>
  frequencies, magnitudes = analyze_spectrum(audio_data, sample_rate, ...)
  carrier_freq = find_carrier_frequency(frequencies, magnitudes)
  \<close>
\<close>

definition main_carrier_freq :: "(real \<Rightarrow> real) \<Rightarrow> real list \<Rightarrow> real \<Rightarrow> error + real" where
  "main_carrier_freq fl audio_data sample_rate =
     (case analyze_spectrum fl audio_data sample_rate of
        Inl e \<Rightarrow> Inl e
      | Inr (frequencies, magnitudes) \<Rightarrow> find_carrier_frequency frequencies magnitudes)"

text \<open>A test signal: 22 samples that alternate between 1 and -1.\<close>

definition alternating_22 :: "real list" where
  "alternating_22 =
     [1, - 1, 1, - 1, 1, - 1, 1, - 1, 1, - 1, 1, - 1, 1, - 1, 1, - 1, 1, - 1, 1, - 1, 1, - 1]"

subsection \<open>demodulate_am\<close>

text \<open>
  \<^verbatim>\<open>
  t = np.arange(len(signal_data)) / sample_rate
  carrier = np.cos(2 * np.pi * carrier_freq * t)
  demodulated = signal_data * carrier
  \<close>
  The division is an array division: a zero sample rate gives non-finite times, not an
  exception.
\<close>

definition demodulate_am :: "real list \<Rightarrow> real \<Rightarrow> real \<Rightarrow> npfloat list" where
  "demodulate_am signal_data sample_rate carrier_freq =
     (let t = map (\<lambda>i. np_true_divide i sample_rate) (arange (length signal_data));
          carrier = map (\<lambda>ti. np_cos (np_multiply (Finite (2 * pi * carrier_freq)) ti)) t
      in map2 (\<lambda>s c. np_multiply (Finite s) c) signal_data carrier)"

subsection \<open>apply_bandpass_filter\<close>

text \<open>
  \<^verbatim>\<open>
  nyquist = 0.5 * sample_rate
  low = lowcut / nyquist
  high = highcut / nyquist
  b, a = signal.butter(order, [low, high], btype='band')
  filtered_signal = signal.filtfilt(b, a, signal_data)
  \<close>
  \<^verbatim>\<open>signal.butter\<close> and \<^verbatim>\<open>signal.filtfilt\<close> are SciPy routines; the stage takes them as
  parameters, whatever type \<open>'c\<close> the coefficients have, and records the calls it makes
  to them, in order. The two divisions are on Python scalars and raise on a zero Nyquist
  frequency.
\<close>

datatype 'c call = Butter nat "real list" | Filtfilt 'c "real list"

definition apply_bandpass_filter ::
  "(nat \<Rightarrow> real list \<Rightarrow> error + 'c) \<Rightarrow> ('c \<Rightarrow> real list \<Rightarrow> error + real list) \<Rightarrow>
   real list \<Rightarrow> real \<Rightarrow> real \<Rightarrow> real \<Rightarrow> nat \<Rightarrow> 'c call list \<times> (error + real list)" where
  "apply_bandpass_filter butter filtfilt signal_data sample_rate lowcut highcut order =
     (let nyquist = 0.5 * sample_rate
      in if nyquist = 0 then ([], Inl ZeroDivisionError)
         else (let low = lowcut / nyquist;
                   high = highcut / nyquist
               in case butter order [low, high] of
                    Inl e \<Rightarrow> ([Butter order [low, high]], Inl e)
                  | Inr ba \<Rightarrow>
                      ([Butter order [low, high], Filtfilt ba signal_data],
                       filtfilt ba signal_data)))"

text \<open>
  Library behaviour for the examples: SciPy's check that the critical frequencies of a
  digital design lie strictly between 0 and 1 (the coefficients of an accepted design
  are no part of the model), and a filter application that returns its input.
\<close>

definition butter_range_check :: "nat \<Rightarrow> real list \<Rightarrow> error + unit" where
  "butter_range_check order Wn =
     (if list_all (\<lambda>w. 0 < w \<and> w < 1) Wn then Inr () else Inl ValueError)"

definition filtfilt_passthrough :: "unit \<Rightarrow> real list \<Rightarrow> error + real list" where
  "filtfilt_passthrough ba x = Inr x"

subsection \<open>WAV data\<close>

text \<open>
  What \<^verbatim>\<open>wavfile.read\<close> returns and \<^verbatim>\<open>wavfile.write\<close> takes: a sample rate and an
  array whose dtype follows the file's encoding (8-bit PCM is unsigned, wider PCM is
  signed, or floats). The array is one-dimensional for one channel; for more channels
  it has one row per sample index, with at least two entries.
\<close>

datatype 'a frame = Frame 'a 'a "'a list"

datatype 'a ndarray = Arr1 "'a list" | Arr2 "'a frame list"

datatype samples =
    UInt8Arr "8 word ndarray"
  | Int16Arr "16 word ndarray"
  | Int32Arr "32 word ndarray"
  | Int64Arr "64 word ndarray"
  | Float32Arr "real ndarray"
  | Float64Arr "real ndarray"

record wav =
  rate :: nat
  data :: samples

fun channels :: "'a frame \<Rightarrow> 'a list" where
  "channels (Frame a b cs) = a # b # cs"

fun map_frame :: "('a \<Rightarrow> 'b) \<Rightarrow> 'a frame \<Rightarrow> 'b frame" where
  "map_frame f (Frame a b cs) = Frame (f a) (f b) (map f cs)"

fun map_ndarray :: "('a \<Rightarrow> 'b) \<Rightarrow> 'a ndarray \<Rightarrow> 'b ndarray" where
  "map_ndarray f (Arr1 xs) = Arr1 (map f xs)"
| "map_ndarray f (Arr2 rows) = Arr2 (map (map_frame f) rows)"

fun dtype_kind :: "samples \<Rightarrow> char" where
  "dtype_kind (UInt8Arr a) = CHR ''u''"
| "dtype_kind (Int16Arr a) = CHR ''i''"
| "dtype_kind (Int32Arr a) = CHR ''i''"
| "dtype_kind (Int64Arr a) = CHR ''i''"
| "dtype_kind (Float32Arr a) = CHR ''f''"
| "dtype_kind (Float64Arr a) = CHR ''f''"

text \<open>\<^verbatim>\<open>np.iinfo(dtype).max\<close>; it is only read for an integer dtype.\<close>

fun iinfo_max :: "samples \<Rightarrow> int" where
  "iinfo_max (UInt8Arr a) = 255"
| "iinfo_max (Int16Arr a) = 32767"
| "iinfo_max (Int32Arr a) = 2147483647"
| "iinfo_max (Int64Arr a) = 9223372036854775807"
| "iinfo_max a = 0"

text \<open>The numbers an array holds: \<^verbatim>\<open>astype(float)\<close> on an integer array.\<close>

fun astype_float :: "samples \<Rightarrow> real ndarray" where
  "astype_float (UInt8Arr a) = map_ndarray (\<lambda>x. real (unat x)) a"
| "astype_float (Int16Arr a) = map_ndarray (\<lambda>x. real_of_int (sint x)) a"
| "astype_float (Int32Arr a) = map_ndarray (\<lambda>x. real_of_int (sint x)) a"
| "astype_float (Int64Arr a) = map_ndarray (\<lambda>x. real_of_int (sint x)) a"
| "astype_float (Float32Arr a) = a"
| "astype_float (Float64Arr a) = a"

definition mean :: "real frame \<Rightarrow> real" where
  "mean row = sum_list (channels row) / real (length (channels row))"

subsection \<open>load_audio\<close>

text \<open>
  \<^verbatim>\<open>
  sample_rate, audio_data = wavfile.read(file_path)
  if audio_data.dtype.kind == 'i':
      audio_data = audio_data.astype(float) / np.iinfo(audio_data.dtype).max
  if len(audio_data.shape) > 1:
      audio_data = np.mean(audio_data, axis=1)
  \<close>
  The argument is the decoded content of the file.
\<close>

definition load_audio :: "wav \<Rightarrow> nat \<times> real list" where
  "load_audio file =
     (let sample_rate = rate file;
          audio_data = data file;
          audio_data' =
            (if dtype_kind audio_data = CHR ''i''
             then map_ndarray (\<lambda>x. x / real_of_int (iinfo_max audio_data)) (astype_float audio_data)
             else astype_float audio_data)
      in case audio_data' of
           Arr1 xs \<Rightarrow> (sample_rate, xs)
         | Arr2 rows \<Rightarrow> (sample_rate, map mean rows))"

subsection \<open>save_audio\<close>

text \<open>
  \<^verbatim>\<open>
  normalized_signal = signal_data / np.max(np.abs(signal_data))
  wavfile.write(file_path, sample_rate, (normalized_signal * 32767).astype(np.int16))
  \<close>
  \<^verbatim>\<open>np.max\<close> raises ValueError on an empty array. The cast to int16 truncates towards
  zero; on NaN, an infinity or a value out of range its result depends on the platform
  and is the parameter \<open>cast_undef\<close>. The result is the content written to the file.

  \<^verbatim>\<open>wavfile.write\<close> packs the sample rate and the byte rate, 2 bytes for each sample of
  one int16 channel, into unsigned 32-bit fields of the header (\<^verbatim>\<open>struct.error\<close> when
  one does not fit), then refuses with ValueError data that would take the file, 36
  bytes of it header, beyond \<open>2\<^sup>3\<^sup>2 - 1\<close> bytes.
\<close>

definition wavfile_write :: "nat \<Rightarrow> 16 word list \<Rightarrow> error + wav" where
  "wavfile_write fs samples =
     (let bytes_per_second = fs * 2;
          nbytes = 2 * length samples
      in if 4294967295 < fs \<or> 4294967295 < bytes_per_second then Inl StructError
         else if 4294967295 < 36 + nbytes then Inl ValueError
         else Inr \<lparr>rate = fs, data = Int16Arr (Arr1 samples)\<rparr>)"

definition amax :: "real list \<Rightarrow> error + real" where
  "amax xs = (case xs of [] \<Rightarrow> Inl ValueError | x # rest \<Rightarrow> Inr (fold max rest x))"

definition trunc_toward_zero :: "real \<Rightarrow> int" where
  "trunc_toward_zero x = (if 0 \<le> x then \<lfloor>x\<rfloor> else \<lceil>x\<rceil>)"

definition astype_int16 :: "(npfloat \<Rightarrow> 16 word) \<Rightarrow> npfloat \<Rightarrow> 16 word" where
  "astype_int16 cast_undef v =
     (case v of
        Finite x \<Rightarrow>
          (if - 32768 \<le> trunc_toward_zero x \<and> trunc_toward_zero x \<le> 32767
           then word_of_int (trunc_toward_zero x) else cast_undef v)
      | _ \<Rightarrow> cast_undef v)"

definition save_audio :: "(npfloat \<Rightarrow> 16 word) \<Rightarrow> real list \<Rightarrow> nat \<Rightarrow> error + wav" where
  "save_audio cast_undef signal_data sample_rate =
     (case amax (map abs signal_data) of
        Inl e \<Rightarrow> Inl e
      | Inr peak \<Rightarrow>
          (let normalized_signal = map (\<lambda>x. np_true_divide x peak) signal_data
           in wavfile_write sample_rate
                (map (\<lambda>v. astype_int16 cast_undef (np_multiply v (Finite 32767)))
                     normalized_signal)))"

text \<open>
  One behaviour a platform may have for the cast of a value that int16 cannot hold; it
  fixes the parameter of \<open>save_audio\<close> in the examples.
\<close>

definition cast_to_zero :: "npfloat \<Rightarrow> 16 word" where
  "cast_to_zero v = 0"

section \<open>Properties of argmax\<close>

lemma argmax_loop_inv:
  "length pre = i \<Longrightarrow> bi < i \<Longrightarrow> (pre @ ys) ! bi = b \<Longrightarrow>
   (\<forall>j < i. (pre @ ys) ! j \<le> b) \<Longrightarrow> (\<forall>j < bi. (pre @ ys) ! j < b) \<Longrightarrow>
   (let r = argmax_loop ys i bi b in
      r < length (pre @ ys) \<and>
      (\<forall>j < length (pre @ ys). (pre @ ys) ! j \<le> (pre @ ys) ! r) \<and>
      (\<forall>j < r. (pre @ ys) ! j < (pre @ ys) ! r))"
proof (induction ys arbitrary: pre i bi b)
  case Nil
  then show ?case by simp
next
  case (Cons y ys)
  have app: "pre @ y # ys = (pre @ [y]) @ ys" by simp
  have yi: "(pre @ y # ys) ! i = y" using Cons.prems(1) by (simp add: nth_append)
  show ?case
  proof (cases "b < y")
    case True
    have le: "\<forall>j < Suc i. ((pre @ [y]) @ ys) ! j \<le> y"
    proof (intro allI impI)
      fix j assume "j < Suc i"
      then consider "j < i" | "j = i" by linarith
      then show "((pre @ [y]) @ ys) ! j \<le> y"
      proof cases
        case 1
        then have "(pre @ y # ys) ! j \<le> b" using Cons.prems(4) by blast
        then show ?thesis using True by simp
      next
        case 2
        then show ?thesis using yi by simp
      qed
    qed
    have lt: "\<forall>j < i. ((pre @ [y]) @ ys) ! j < y"
    proof (intro allI impI)
      fix j assume "j < i"
      then have "(pre @ y # ys) ! j \<le> b" using Cons.prems(4) by blast
      then show "((pre @ [y]) @ ys) ! j < y" using True by simp
    qed
    have "let r = argmax_loop ys (Suc i) i y in
            r < length ((pre @ [y]) @ ys) \<and>
            (\<forall>j < length ((pre @ [y]) @ ys). ((pre @ [y]) @ ys) ! j \<le> ((pre @ [y]) @ ys) ! r) \<and>
            (\<forall>j < r. ((pre @ [y]) @ ys) ! j < ((pre @ [y]) @ ys) ! r)"
      using Cons.prems(1) yi le lt
      by (intro Cons.IH [of "pre @ [y]" "Suc i" i y]) simp_all
    then show ?thesis using True by (simp add: Let_def)
  next
    case False
    have le: "\<forall>j < Suc i. ((pre @ [y]) @ ys) ! j \<le> b"
    proof (intro allI impI)
      fix j assume "j < Suc i"
      then consider "j < i" | "j = i" by linarith
      then show "((pre @ [y]) @ ys) ! j \<le> b"
      proof cases
        case 1
        then show ?thesis using Cons.prems(4) by simp
      next
        case 2
        then show ?thesis using yi False by simp
      qed
    qed
    have "let r = argmax_loop ys (Suc i) bi b in
            r < length ((pre @ [y]) @ ys) \<and>
            (\<forall>j < length ((pre @ [y]) @ ys). ((pre @ [y]) @ ys) ! j \<le> ((pre @ [y]) @ ys) ! r) \<and>
            (\<forall>j < r. ((pre @ [y]) @ ys) ! j < ((pre @ [y]) @ ys) ! r)"
      using Cons.prems le
      by (intro Cons.IH [of "pre @ [y]" "Suc i" bi b]) simp_all
    then show ?thesis using False by (simp add: Let_def)
  qed
qed

lemma argmax_empty: "argmax [] = Inl ValueError"
  by (simp add: argmax_def)

lemma argmax_first_max:
  assumes "xs \<noteq> []"
  obtains r where "argmax xs = Inr r" and "r < length xs"
    and "\<forall>j < length xs. xs ! j \<le> xs ! r" and "\<forall>j < r. xs ! j < xs ! r"
proof -
  from assms obtain x rest where xs: "xs = x # rest" by (cases xs) auto
  have "let r = argmax_loop rest 1 0 x in
          r < length ([x] @ rest) \<and>
          (\<forall>j < length ([x] @ rest). ([x] @ rest) ! j \<le> ([x] @ rest) ! r) \<and>
          (\<forall>j < r. ([x] @ rest) ! j < ([x] @ rest) ! r)"
    by (intro argmax_loop_inv) simp_all
  then show thesis
    using that [of "argmax_loop rest 1 0 x"] by (simp add: xs argmax_def Let_def)
qed

section \<open>Carrier detection\<close>

lemma start_idx_first:
  assumes "\<exists>f \<in> set fs. 1000 < (f::real)"
  obtains s where "argmax (map (\<lambda>f. 1000 < f) fs) = Inr s" and "s < length fs"
    and "1000 < fs ! s" and "\<forall>j < s. \<not> 1000 < fs ! j"
proof -
  let ?bs = "map (\<lambda>f::real. 1000 < f) fs"
  from assms have ne: "?bs \<noteq> []" by auto
  from assms obtain m where m: "m < length fs" "1000 < fs ! m"
    by (auto simp: in_set_conv_nth)
  from ne obtain r where r: "argmax ?bs = Inr r" "r < length ?bs"
    "\<forall>j < length ?bs. ?bs ! j \<le> ?bs ! r" "\<forall>j < r. ?bs ! j < ?bs ! r"
    by (rule argmax_first_max)
  from r(2) have rl: "r < length fs" by simp
  from r(3) m rl have "1000 < fs ! r" by auto
  moreover have "\<forall>j < r. \<not> 1000 < fs ! j"
  proof (intro allI impI)
    fix j assume "j < r"
    with r(4) rl have "?bs ! j < ?bs ! r" by blast
    with \<open>j < r\<close> rl show "\<not> 1000 < fs ! j" by auto
  qed
  ultimately show thesis using that r(1) rl by blast
qed

lemma start_idx_none:
  assumes "fs \<noteq> []" and "\<forall>f \<in> set fs. f \<le> (1000::real)"
  shows "argmax (map (\<lambda>f. 1000 < f) fs) = Inr 0"
proof -
  let ?bs = "map (\<lambda>f::real. 1000 < f) fs"
  from assms have ne: "?bs \<noteq> []" by auto
  from ne obtain r where r: "argmax ?bs = Inr r" "r < length ?bs"
    "\<forall>j < length ?bs. ?bs ! j \<le> ?bs ! r" "\<forall>j < r. ?bs ! j < ?bs ! r"
    by (rule argmax_first_max)
  have allF: "\<And>j. j < length fs \<Longrightarrow> \<not> ?bs ! j"
    using assms(2) by (simp add: leD)
  have "r = 0"
  proof (rule ccontr)
    assume "r \<noteq> 0"
    then have "0 < r" by simp
    with r(4) have "?bs ! 0 < ?bs ! r" by blast
    then have "?bs ! r" by (simp add: less_bool_def)
    with allF r(2) show False by simp
  qed
  with r(1) show ?thesis by simp
qed

text \<open>
  Without the 1000 Hz floor in the way the search is a plain arg-max: this is what the
  source does when no frequency exceeds the floor.
\<close>

lemma find_carrier_frequency_no_bin_above:
  assumes len: "length magnitudes = length frequencies"
    and ne: "frequencies \<noteq> []"
    and low: "\<forall>f \<in> set frequencies. f \<le> 1000"
  obtains p where "p < length frequencies"
    and "find_carrier_frequency frequencies magnitudes = Inr (frequencies ! p)"
    and "\<forall>j < length magnitudes. magnitudes ! j \<le> magnitudes ! p"
    and "\<forall>j < p. magnitudes ! j < magnitudes ! p"
proof -
  have s: "argmax (map (\<lambda>f. 1000 < f) frequencies) = Inr 0"
    using ne low by (rule start_idx_none)
  from ne len have "magnitudes \<noteq> []" by auto
  then obtain k where k: "argmax magnitudes = Inr k" "k < length magnitudes"
    "\<forall>j < length magnitudes. magnitudes ! j \<le> magnitudes ! k"
    "\<forall>j < k. magnitudes ! j < magnitudes ! k"
    by (rule argmax_first_max)
  have "find_carrier_frequency frequencies magnitudes = Inr (frequencies ! k)"
    using s k(1,2) len by (simp add: find_carrier_frequency_def)
  with k len that show thesis by simp
qed

lemma find_carrier_frequency_index:
  assumes len: "length magnitudes = length frequencies" and ne: "frequencies \<noteq> []"
  obtains p where "p < length frequencies"
    and "find_carrier_frequency frequencies magnitudes = Inr (frequencies ! p)"
proof (cases "\<exists>f \<in> set frequencies. 1000 < f")
  case True
  then obtain s where s: "argmax (map (\<lambda>f. 1000 < f) frequencies) = Inr s"
    "s < length frequencies" by (rule start_idx_first)
  from s(2) len have "drop s magnitudes \<noteq> []" by simp
  then obtain k where k: "argmax (drop s magnitudes) = Inr k" "k < length (drop s magnitudes)"
    by (rule argmax_first_max)
  from k(2) len have p: "k + s < length frequencies" by simp
  then have "find_carrier_frequency frequencies magnitudes = Inr (frequencies ! (k + s))"
    using s(1) k(1) by (simp add: find_carrier_frequency_def)
  with p that show thesis by blast
next
  case False
  then have "\<forall>f \<in> set frequencies. f \<le> 1000" by (simp add: not_less)
  from find_carrier_frequency_no_bin_above [OF len ne this] that
  show thesis by blast
qed

lemma find_carrier_frequency_unique_peak:
  assumes len: "length magnitudes = length frequencies"
    and sp: "s \<le> p" and p: "p < length frequencies"
    and above: "1000 < frequencies ! s" and below: "\<forall>j < s. frequencies ! j \<le> 1000"
    and peak: "\<forall>j. s \<le> j \<and> j < length magnitudes \<and> j \<noteq> p \<longrightarrow>
                 magnitudes ! j < magnitudes ! p"
  shows "find_carrier_frequency frequencies magnitudes = Inr (frequencies ! p)"
proof -
  have sl: "s < length frequencies" using sp p by simp
  then have "\<exists>f \<in> set frequencies. 1000 < f" using above nth_mem by blast
  then obtain s' where s': "argmax (map (\<lambda>f. 1000 < f) frequencies) = Inr s'"
    "s' < length frequencies" "1000 < frequencies ! s'" "\<forall>j < s'. \<not> 1000 < frequencies ! j"
    by (rule start_idx_first)
  have "s' = s"
  proof (rule ccontr)
    assume "s' \<noteq> s"
    then consider "s' < s" | "s < s'" by linarith
    then show False
    proof cases
      case 1
      with below s'(3) show False by (simp add: leD)
    next
      case 2
      with s'(4) above show False by blast
    qed
  qed
  with s'(1) have st: "argmax (map (\<lambda>f. 1000 < f) frequencies) = Inr s" by simp
  let ?tl = "drop s magnitudes"
  from sl len have "?tl \<noteq> []" by simp
  then obtain r where r: "argmax ?tl = Inr r" "r < length ?tl"
    "\<forall>j < length ?tl. ?tl ! j \<le> ?tl ! r"
    by (rule argmax_first_max)
  have ps: "p - s < length ?tl" using sp p len by simp
  have "r + s = p"
  proof (rule ccontr)
    assume ne: "r + s \<noteq> p"
    have "s \<le> r + s \<and> r + s < length magnitudes \<and> r + s \<noteq> p" using r(2) ne by simp
    with peak have "magnitudes ! (r + s) < magnitudes ! p" by blast
    moreover have "?tl ! r = magnitudes ! (r + s)" using r(2) by (simp add: add.commute)
    moreover have "?tl ! (p - s) = magnitudes ! p" using ps sp by simp
    moreover have "?tl ! (p - s) \<le> ?tl ! r" using r(3) ps by blast
    ultimately show False by simp
  qed
  with st r(1) p show ?thesis by (simp add: find_carrier_frequency_def)
qed

text \<open>
  The floor only selects the bins above 1000 Hz when the frequencies are in increasing
  order, as those of a spectrum are: the search runs over everything from the first such
  bin on.
\<close>

lemma find_carrier_frequency_unsorted:
  "find_carrier_frequency [2000, 500] [1, 5] = Inr 500"
  by (simp add: find_carrier_frequency_def argmax_def)

lemma find_carrier_frequency_empty:
  "find_carrier_frequency [] magnitudes = Inl ValueError"
  by (simp add: find_carrier_frequency_def argmax_def)

text \<open>
  Claim C1. For a spectrum (equally long frequency and magnitude sequences, frequencies
  in increasing order) with at least one bin above 1000 Hz, \<open>find_carrier_frequency\<close>
  returns the frequency of a bin above 1000 Hz whose magnitude is maximal among the bins
  above 1000 Hz, and it is the first such bin: every earlier bin above 1000 Hz has a
  strictly smaller magnitude.
\<close>

theorem find_carrier_frequency_peak_above_threshold:
  assumes len: "length magnitudes = length frequencies"
    and srt: "sorted frequencies"
    and ex: "\<exists>f \<in> set frequencies. 1000 < f"
  shows "\<exists>p < length frequencies.
           find_carrier_frequency frequencies magnitudes = Inr (frequencies ! p) \<and>
           1000 < frequencies ! p \<and>
           (\<forall>j < length frequencies.
              1000 < frequencies ! j \<longrightarrow> magnitudes ! j \<le> magnitudes ! p) \<and>
           (\<forall>j < p. 1000 < frequencies ! j \<longrightarrow> magnitudes ! j < magnitudes ! p)"
proof -
  from ex obtain s where s: "argmax (map (\<lambda>f. 1000 < f) frequencies) = Inr s"
    "s < length frequencies" "1000 < frequencies ! s" "\<forall>j < s. \<not> 1000 < frequencies ! j"
    by (rule start_idx_first)
  let ?tl = "drop s magnitudes"
  from s(2) len have ne: "?tl \<noteq> []" by simp
  from ne obtain k where k: "argmax ?tl = Inr k" "k < length ?tl"
    "\<forall>j < length ?tl. ?tl ! j \<le> ?tl ! k" "\<forall>j < k. ?tl ! j < ?tl ! k"
    by (rule argmax_first_max)
  let ?p = "k + s"
  from k(2) len have p: "?p < length frequencies" by simp
  have res: "find_carrier_frequency frequencies magnitudes = Inr (frequencies ! ?p)"
    using s(1) k(1) p by (simp add: find_carrier_frequency_def)
  have above: "1000 < frequencies ! ?p"
  proof -
    have "frequencies ! s \<le> frequencies ! ?p"
      using srt p by (simp add: sorted_iff_nth_mono)
    with s(3) show ?thesis by simp
  qed
  have mx: "\<forall>j < length frequencies.
              1000 < frequencies ! j \<longrightarrow> magnitudes ! j \<le> magnitudes ! ?p"
  proof (intro allI impI)
    fix j assume j: "j < length frequencies" "1000 < frequencies ! j"
    with s(4) have "s \<le> j" by (meson not_le_imp_less)
    then obtain d where d: "j = s + d" using le_Suc_ex by blast
    with j(1) len have dl: "d < length ?tl" by simp
    with k(3) have "?tl ! d \<le> ?tl ! k" by blast
    then show "magnitudes ! j \<le> magnitudes ! ?p"
      using d k(2) dl by (simp add: add.commute)
  qed
  have first: "\<forall>j < ?p. 1000 < frequencies ! j \<longrightarrow> magnitudes ! j < magnitudes ! ?p"
  proof (intro allI impI)
    fix j assume j: "j < ?p" "1000 < frequencies ! j"
    with s(4) have "s \<le> j" by (meson not_le_imp_less)
    then obtain d where d: "j = s + d" using le_Suc_ex by blast
    with j(1) have dk: "d < k" by simp
    with k(4) have "?tl ! d < ?tl ! k" by blast
    then show "magnitudes ! j < magnitudes ! ?p"
      using d k(2) dk by (simp add: add.commute)
  qed
  from p res above mx first show ?thesis by blast
qed

theorem find_carrier_frequency_peak_above_threshold_witness:
  "length [9, 1, 3, 7, 7 :: real] = length [0, 500, 1500, 2000, 2500 :: real] \<and>
   sorted [0, 500, 1500, 2000, 2500 :: real] \<and>
   (\<exists>f \<in> set [0, 500, 1500, 2000, 2500 :: real]. 1000 < f) \<and>
   (\<exists>p < length [0, 500, 1500, 2000, 2500 :: real].
      find_carrier_frequency [0, 500, 1500, 2000, 2500] [9, 1, 3, 7, 7] =
        Inr ([0, 500, 1500, 2000, 2500] ! p) \<and>
      1000 < [0, 500, 1500, 2000, 2500 :: real] ! p \<and>
      (\<forall>j < length [0, 500, 1500, 2000, 2500 :: real].
         1000 < [0, 500, 1500, 2000, 2500 :: real] ! j \<longrightarrow>
         [9, 1, 3, 7, 7 :: real] ! j \<le> [9, 1, 3, 7, 7] ! p) \<and>
      (\<forall>j < p. 1000 < [0, 500, 1500, 2000, 2500 :: real] ! j \<longrightarrow>
         [9, 1, 3, 7, 7 :: real] ! j < [9, 1, 3, 7, 7] ! p))"
proof -
  have h1: "length [9, 1, 3, 7, 7 :: real] = length [0, 500, 1500, 2000, 2500 :: real]"
    by simp
  have h2: "sorted [0, 500, 1500, 2000, 2500 :: real]" by simp
  have h3: "\<exists>f \<in> set [0, 500, 1500, 2000, 2500 :: real]. 1000 < f" by simp
  from find_carrier_frequency_peak_above_threshold [OF h1 h2 h3] h1 h2 h3
  show ?thesis by (intro conjI)
qed

text \<open>
  Claim C2. For a non-empty spectrum in which no bin is above 1000 Hz the start index
  is 0, so the search covers the whole spectrum: \<open>find_carrier_frequency\<close> returns,
  without raising, the frequency of the first bin of globally maximal magnitude.
\<close>

theorem find_carrier_frequency_fallback_full_spectrum:
  assumes len: "length magnitudes = length frequencies"
    and ne: "frequencies \<noteq> []"
    and low: "\<forall>f \<in> set frequencies. f \<le> 1000"
  shows "argmax (map (\<lambda>f. 1000 < f) frequencies) = Inr 0 \<and>
         (\<exists>p < length frequencies.
            find_carrier_frequency frequencies magnitudes = Inr (frequencies ! p) \<and>
            (\<forall>j < length magnitudes. magnitudes ! j \<le> magnitudes ! p) \<and>
            (\<forall>j < p. magnitudes ! j < magnitudes ! p))"
proof -
  have "argmax (map (\<lambda>f. 1000 < f) frequencies) = Inr 0"
    using ne low by (rule start_idx_none)
  moreover from find_carrier_frequency_no_bin_above [OF len ne low]
  have "\<exists>p < length frequencies.
          find_carrier_frequency frequencies magnitudes = Inr (frequencies ! p) \<and>
          (\<forall>j < length magnitudes. magnitudes ! j \<le> magnitudes ! p) \<and>
          (\<forall>j < p. magnitudes ! j < magnitudes ! p)"
    by metis
  ultimately show ?thesis by simp
qed

theorem find_carrier_frequency_fallback_full_spectrum_witness:
  "length [2, 5, 5 :: real] = length [0, 500, 1000 :: real] \<and>
   [0, 500, 1000 :: real] \<noteq> [] \<and>
   list_all (\<lambda>f. f \<le> 1000) [0, 500, 1000 :: real] \<and>
   argmax (map (\<lambda>f. 1000 < f) [0, 500, 1000 :: real]) = Inr 0 \<and>
   (\<exists>p < length [0, 500, 1000 :: real].
      find_carrier_frequency [0, 500, 1000] [2, 5, 5] = Inr ([0, 500, 1000] ! p) \<and>
      (\<forall>j < length [2, 5, 5 :: real]. [2, 5, 5 :: real] ! j \<le> [2, 5, 5] ! p) \<and>
      (\<forall>j < p. [2, 5, 5 :: real] ! j < [2, 5, 5] ! p))"
proof -
  have h1: "length [2, 5, 5 :: real] = length [0, 500, 1000 :: real]" by simp
  have h2: "[0, 500, 1000 :: real] \<noteq> []" by simp
  have h3: "\<forall>f \<in> set [0, 500, 1000 :: real]. f \<le> 1000" by simp
  have h3': "list_all (\<lambda>f. f \<le> 1000) [0, 500, 1000 :: real]" by simp
  from find_carrier_frequency_fallback_full_spectrum [OF h1 h2 h3] h1 h2 h3'
  show ?thesis by (intro conjI) blast+
qed

section \<open>Rounding\<close>

lemma round_half_even_error: "\<bar>of_int (round_half_even x) - x\<bar> \<le> 1 / 2"
  unfolding round_half_even_def Let_def by (auto simp: abs_if) linarith+

lemma binade_lower:
  assumes "x \<noteq> 0"
  shows "2 powr of_int \<lfloor>log 2 \<bar>x\<bar>\<rfloor> \<le> \<bar>x\<bar>"
proof -
  have pos: "0 < \<bar>x\<bar>" using assms by simp
  have "of_int \<lfloor>log 2 \<bar>x\<bar>\<rfloor> \<le> log 2 \<bar>x\<bar>" by simp
  then have "2 powr of_int \<lfloor>log 2 \<bar>x\<bar>\<rfloor> \<le> 2 powr log 2 \<bar>x\<bar>"
    by (simp only: powr_le_cancel_iff [of 2]) 
  also have "\<dots> = \<bar>x\<bar>" using pos by simp
  finally show ?thesis .
qed

lemma round_double_error: "\<bar>round_double x - x\<bar> \<le> (1 / 2 ^ 53) * \<bar>x\<bar>"
proof (cases "x = 0")
  case True
  then show ?thesis by (simp add: round_double_def)
next
  case False
  define e where "e = \<lfloor>log 2 \<bar>x\<bar>\<rfloor>"
  define ulp :: real where "ulp = 2 powr (of_int e - 52)"
  have ulp_pos: "0 < ulp" by (simp add: ulp_def)
  have rd: "round_double x = of_int (round_half_even (x / ulp)) * ulp"
    using False by (simp add: round_double_def Let_def e_def ulp_def)
  have "ulp = 2 powr of_int e * (1 / 2 ^ 52)"
    by (simp add: ulp_def powr_diff)
  moreover have "2 powr of_int e \<le> \<bar>x\<bar>" unfolding e_def using False by (rule binade_lower)
  ultimately have ulp_le: "ulp \<le> \<bar>x\<bar> * (1 / 2 ^ 52)" by simp
  have "round_double x - x = (of_int (round_half_even (x / ulp)) - x / ulp) * ulp"
    using ulp_pos by (simp add: rd field_simps)
  then have "\<bar>round_double x - x\<bar> = \<bar>of_int (round_half_even (x / ulp)) - x / ulp\<bar> * ulp"
    using ulp_pos by (simp add: abs_mult)
  also have "\<dots> \<le> (1 / 2) * ulp"
    using round_half_even_error [of "x / ulp"] ulp_pos by (intro mult_right_mono) simp_all
  also have "\<dots> \<le> (1 / 2) * (\<bar>x\<bar> * (1 / 2 ^ 52))"
    using ulp_le by simp
  also have "\<dots> = (1 / 2 ^ 53) * \<bar>x\<bar>" by simp
  finally show ?thesis .
qed

lemma round_double_relative: "\<forall>x. \<bar>round_double x - x\<bar> \<le> (1 / 2 ^ 53) * \<bar>x\<bar>"
  using round_double_error by blast

lemma exact_error: "\<bar>exact x - x\<bar> \<le> 0 * \<bar>x\<bar>"
  by (simp add: exact_def)

text \<open>What a rounding with relative error at most \<open>u < 1\<close> does to a number.\<close>

lemma rounding_lower:
  assumes "\<forall>x::real. \<bar>fl x - x\<bar> \<le> u * \<bar>x\<bar>" and "0 \<le> x"
  shows "x * (1 - u) \<le> fl x"
proof -
  from assms have "\<bar>fl x - x\<bar> \<le> u * x" by (metis abs_of_nonneg)
  then show ?thesis by (simp add: algebra_simps abs_le_iff)
qed

lemma rounding_upper:
  assumes "\<forall>x::real. \<bar>fl x - x\<bar> \<le> u * \<bar>x\<bar>" and "0 \<le> x"
  shows "fl x \<le> x * (1 + u)"
proof -
  from assms have "\<bar>fl x - x\<bar> \<le> u * x" by (metis abs_of_nonneg)
  then show ?thesis by (simp add: algebra_simps abs_le_iff)
qed

lemma rounding_positive:
  assumes "\<forall>x::real. \<bar>fl x - x\<bar> \<le> u * \<bar>x\<bar>" and "u < 1" and "0 < x"
  shows "0 < fl x"
proof -
  have "0 < x * (1 - u)" using assms(2,3) by simp
  also have "\<dots> \<le> fl x" using rounding_lower [OF assms(1), of x] assms(3) by simp
  finally show ?thesis .
qed

lemma rounding_zero:
  assumes "\<forall>x::real. \<bar>fl x - x\<bar> \<le> u * \<bar>x\<bar>"
  shows "fl 0 = 0"
  using assms [rule_format, of 0] by simp

lemma round_double_scaled:
  assumes "2 ^ 52 \<le> \<bar>x\<bar> * 2 ^ p" and "\<bar>x\<bar> * 2 ^ p < 2 ^ 53"
  shows "round_double x = of_int (round_half_even (x * 2 ^ p)) / 2 ^ p"
proof -
  have p: "(2::real) powr (- real p) = 1 / 2 ^ p"
    by (simp add: powr_minus powr_realpow field_simps)
  have e: "(2::real) powr of_int (52 - int p) = 2 ^ 52 / 2 ^ p"
    by (simp add: powr_diff powr_realpow)
  have e1: "(2::real) powr (of_int (52 - int p) + 1) = 2 ^ 53 / 2 ^ p"
    by (simp add: powr_add powr_diff powr_realpow)
  have u: "(2::real) powr (of_int (52 - int p) - 52) = 1 / 2 ^ p"
    using p by simp
  have pos: "0 < \<bar>x\<bar>"
  proof (rule ccontr)
    assume "\<not> 0 < \<bar>x\<bar>"
    then have "\<bar>x\<bar> * 2 ^ p = 0" by simp
    with assms(1) show False by simp
  qed
  then have nz: "x \<noteq> 0" by simp
  have lo: "2 powr of_int (52 - int p) \<le> \<bar>x\<bar>"
    unfolding e using assms(1) by (simp add: field_simps)
  have hi: "\<bar>x\<bar> < 2 powr (of_int (52 - int p) + 1)"
    unfolding e1 using assms(2) by (simp add: field_simps)
  have "of_int (52 - int p) \<le> log 2 \<bar>x\<bar>" using lo pos by (simp add: le_log_iff)
  moreover have "log 2 \<bar>x\<bar> < of_int (52 - int p) + 1" using hi pos by (simp add: log_less_iff)
  ultimately have "\<lfloor>log 2 \<bar>x\<bar>\<rfloor> = 52 - int p" by (simp add: floor_eq_iff)
  then have "round_double x =
          of_int (round_half_even (x / 2 powr (of_int (52 - int p) - 52))) *
          2 powr (of_int (52 - int p) - 52)"
    using nz by (simp add: round_double_def Let_def)
  then show ?thesis unfolding u by simp
qed

section \<open>Spectrum analysis\<close>

lemma dft_coefficient_sum:
  "dft_coefficient a k =
     (\<Sum>m<length a. of_real (a ! m) *
        exp (- (2 * of_real pi * \<i> * of_nat m * of_nat k / of_nat (length a))))"
  by (simp add: dft_coefficient_def interv_sum_list_conv_sum_set_nat atLeast0LessThan)

lemma analyze_spectrum_returns:
  assumes "signal_data \<noteq> []" and "sample_rate \<noteq> 0"
    and "fl (real (length signal_data) * fl (1 / sample_rate)) \<noteq> 0"
  shows "analyze_spectrum fl signal_data sample_rate =
           Inr (map (\<lambda>k. fl (real k *
                           fl (1 / fl (real (length signal_data) * fl (1 / sample_rate)))))
                    [0..<length signal_data div 2 + 1],
                map (\<lambda>k. cmod (dft_coefficient signal_data k))
                    [0..<length signal_data div 2 + 1])"
  using assms
  by (simp add: analyze_spectrum_def rfftfreq_def rfft_def arange_def Let_def o_def)

lemma analyze_spectrum_form:
  assumes "analyze_spectrum fl signal_data sample_rate = Inr (frequencies, magnitudes)"
  shows "frequencies =
           map (\<lambda>k. fl (real k *
                       fl (1 / fl (real (length signal_data) * fl (1 / sample_rate)))))
               [0..<length signal_data div 2 + 1] \<and>
         magnitudes =
           map (\<lambda>k. cmod (dft_coefficient signal_data k)) [0..<length signal_data div 2 + 1]"
  using assms
  by (auto simp: analyze_spectrum_def rfftfreq_def rfft_def arange_def Let_def o_def
           split: if_splits)

lemma analyze_spectrum_lengths:
  assumes "analyze_spectrum fl signal_data sample_rate = Inr (frequencies, magnitudes)"
  shows "length frequencies = length signal_data div 2 + 1"
    and "length magnitudes = length signal_data div 2 + 1"
  using analyze_spectrum_form [OF assms] by simp_all


lemma analyze_spectrum_empty:
  assumes "fl 0 = 0"
  shows "analyze_spectrum fl [] sample_rate = Inl ZeroDivisionError"
  using assms by (simp add: analyze_spectrum_def rfftfreq_def)

lemma round_double_zero: "round_double 0 = 0"
  by (simp add: round_double_def)

lemma exact_zero: "exact 0 = 0"
  by (simp add: exact_def)

text \<open>
  The bins under a rounding of relative error at most \<open>u\<close>: three rounded operations
  stand between the sample rate and \<open>val\<close>, one more gives a bin.
\<close>

lemma val_bounds:
  fixes fl :: "real \<Rightarrow> real"
  assumes err: "\<forall>x. \<bar>fl x - x\<bar> \<le> u * \<bar>x\<bar>" and u0: "0 \<le> u" and u1: "u < 1"
    and R: "0 < R" and n: "0 < n"
  shows "0 < fl (real n * fl (1 / R))"
    and "0 < fl (1 / fl (real n * fl (1 / R)))"
    and "fl (1 / fl (real n * fl (1 / R))) \<le> R * (1 + u) / (real n * ((1 - u) * (1 - u)))"
proof -
  define d where "d = fl (1 / R)"
  define nd where "nd = fl (real n * d)"
  define val where "val = fl (1 / nd)"
  define w where "w = 1 - u"
  have w: "0 < w" using u1 by (simp add: w_def)
  have rn: "0 < real n" using n by simp
  have d_lo: "1 / R * w \<le> d"
    unfolding d_def w_def using rounding_lower [OF err, of "1 / R"] R by simp
  have d_pos: "0 < d"
    unfolding d_def using rounding_positive [OF err u1, of "1 / R"] R by simp
  have nd_lo: "real n * d * w \<le> nd"
    unfolding nd_def w_def using rounding_lower [OF err, of "real n * d"] d_pos rn by simp
  have nd_pos: "0 < nd"
    unfolding nd_def using rounding_positive [OF err u1, of "real n * d"] d_pos rn by simp
  have "real n * (1 / R * w) * w \<le> real n * d * w"
    using d_lo w rn by (intro mult_right_mono mult_left_mono) simp_all
  with nd_lo have nd_lo2: "real n * (w * w) / R \<le> nd" by (simp add: algebra_simps)
  have low_pos: "0 < real n * (w * w) / R" using rn w R by simp
  have inv: "1 / nd \<le> 1 / (real n * (w * w) / R)"
    using frac_le [of 1 1 "real n * (w * w) / R" nd] nd_lo2 low_pos by simp
  have val_hi: "val \<le> 1 / nd * (1 + u)"
    unfolding val_def using rounding_upper [OF err, of "1 / nd"] nd_pos by simp
  have val_pos: "0 < val"
    unfolding val_def using rounding_positive [OF err u1, of "1 / nd"] nd_pos by simp
  have "1 / nd * (1 + u) \<le> 1 / (real n * (w * w) / R) * (1 + u)"
    using inv u0 by (intro mult_right_mono) simp_all
  also have "\<dots> = R * (1 + u) / (real n * (w * w))" by simp
  finally have "val \<le> R * (1 + u) / (real n * (w * w))" using val_hi by simp
  then show "fl (1 / fl (real n * fl (1 / R))) \<le> R * (1 + u) / (real n * ((1 - u) * (1 - u)))"
    by (simp add: val_def nd_def d_def w_def)
  show "0 < fl (real n * fl (1 / R))" using nd_pos by (simp add: nd_def d_def)
  show "0 < fl (1 / fl (real n * fl (1 / R)))" using val_pos by (simp add: val_def nd_def d_def)
qed

lemma bin_bounds:
  fixes fl :: "real \<Rightarrow> real"
  assumes err: "\<forall>x. \<bar>fl x - x\<bar> \<le> u * \<bar>x\<bar>" and u0: "0 \<le> u" and u1: "u < 1"
    and R: "0 < R" and n: "0 < n" and k: "2 * k \<le> n"
  shows "0 \<le> fl (real k * fl (1 / fl (real n * fl (1 / R))))"
    and "fl (real k * fl (1 / fl (real n * fl (1 / R)))) \<le> R / 2 * ((1 + u) / (1 - u))\<^sup>2"
proof -
  define val where "val = fl (1 / fl (real n * fl (1 / R)))"
  define w where "w = 1 - u"
  have w: "0 < w" using u1 by (simp add: w_def)
  have rn: "0 < real n" using n by simp
  have val_pos: "0 < val" and val_hi: "val \<le> R * (1 + u) / (real n * (w * w))"
    unfolding val_def w_def using val_bounds [OF err u0 u1 R n] by simp_all
  have kv: "0 \<le> real k * val" using val_pos by simp
  have "real k * val * (1 - u) \<le> fl (real k * val)"
    using err kv by (rule rounding_lower)
  moreover have "0 \<le> real k * val * (1 - u)" using kv u1 by simp
  ultimately show "0 \<le> fl (real k * fl (1 / fl (real n * fl (1 / R))))"
    by (simp add: val_def)
  have "fl (real k * val) \<le> real k * val * (1 + u)"
    using err kv by (rule rounding_upper)
  also have "\<dots> \<le> real k * (R * (1 + u) / (real n * (w * w))) * (1 + u)"
    using val_hi u0 by (intro mult_right_mono mult_left_mono) simp_all
  also have "\<dots> = (real k / real n) * (R * ((1 + u) * (1 + u)) / (w * w))"
    by (simp add: field_simps)
  also have "\<dots> \<le> (1 / 2) * (R * ((1 + u) * (1 + u)) / (w * w))"
  proof -
    have "real (2 * k) \<le> real n" using k by (simp only: of_nat_le_iff)
    then have "2 * real k \<le> real n" by simp
    then have a: "real k / real n \<le> 1 / 2" using rn by (simp add: field_simps)
    have b: "0 \<le> R * ((1 + u) * (1 + u)) / (w * w)" using R u0 w by simp
    from a b show ?thesis by (rule mult_right_mono)
  qed
  also have "\<dots> = R / 2 * ((1 + u) / (1 - u))\<^sup>2"
    by (simp add: w_def power2_eq_square field_simps)
  finally show "fl (real k * fl (1 / fl (real n * fl (1 / R)))) \<le> R / 2 * ((1 + u) / (1 - u))\<^sup>2"
    by (simp add: val_def)
qed

lemma bins_increase:
  fixes fl :: "real \<Rightarrow> real"
  assumes err: "\<forall>x. \<bar>fl x - x\<bar> \<le> u * \<bar>x\<bar>" and u1: "u < 1" and val: "0 \<le> val"
    and ju: "(2 * real j + 1) * u \<le> 1" and jk: "j < k"
  shows "fl (real j * val) \<le> fl (real k * val)"
proof -
  have a: "real j * (1 + u) \<le> (real j + 1) * (1 - u)"
    using ju by (simp add: algebra_simps)
  have "real (Suc j) \<le> real k" using jk by (simp only: of_nat_le_iff Suc_le_eq)
  then have "real j + 1 \<le> real k" by simp
  then have b: "(real j + 1) * (1 - u) \<le> real k * (1 - u)"
    using u1 by (intro mult_right_mono) simp_all
  have "fl (real j * val) \<le> real j * val * (1 + u)"
    using rounding_upper [OF err, of "real j * val"] val by simp
  also have "\<dots> = (real j * (1 + u)) * val" by simp
  also have "\<dots> \<le> (real k * (1 - u)) * val"
    using a b val by (intro mult_right_mono) simp_all
  also have "\<dots> = real k * val * (1 - u)" by simp
  also have "\<dots> \<le> fl (real k * val)"
    using rounding_lower [OF err, of "real k * val"] val by simp
  finally show ?thesis .
qed

lemma analyze_spectrum_sorted:
  fixes fl :: "real \<Rightarrow> real"
  assumes err: "\<forall>x. \<bar>fl x - x\<bar> \<le> u * \<bar>x\<bar>" and u0: "0 \<le> u" and u1: "u < 1"
    and nu: "real (length signal_data) * u \<le> 1"
    and R: "0 < sample_rate"
    and an: "analyze_spectrum fl signal_data sample_rate = Inr (frequencies, magnitudes)"
  shows "sorted frequencies \<and> length magnitudes = length frequencies"
proof -
  let ?N = "length signal_data"
  define val where "val = fl (1 / fl (real ?N * fl (1 / sample_rate)))"
  have fs: "frequencies = map (\<lambda>k. fl (real k * val)) [0..<?N div 2 + 1]"
    and ms: "magnitudes = map (\<lambda>k. cmod (dft_coefficient signal_data k)) [0..<?N div 2 + 1]"
    using analyze_spectrum_form [OF an] by (simp_all add: val_def)
  have val: "0 \<le> val"
  proof (cases "?N = 0")
    case True
    then show ?thesis using rounding_zero [OF err] by (simp add: val_def)
  next
    case False
    then have "0 < ?N" by simp
    from val_bounds(2) [OF err u0 u1 R this] show ?thesis by (simp add: val_def)
  qed
  have "\<forall>j k. j \<le> k \<longrightarrow> k < length frequencies \<longrightarrow> frequencies ! j \<le> frequencies ! k"
  proof (intro allI impI)
    fix j k assume jk: "j \<le> k" and k: "k < length frequencies"
    then have k': "k < ?N div 2 + 1" and j': "j < ?N div 2 + 1" by (simp_all add: fs)
    have nj: "frequencies ! j = fl (real j * val)"
      unfolding fs using j' by (simp del: upt_Suc)
    have nk: "frequencies ! k = fl (real k * val)"
      unfolding fs using k' by (simp del: upt_Suc)
    show "frequencies ! j \<le> frequencies ! k"
    proof (cases "j = k")
      case True
      then show ?thesis by simp
    next
      case False
      with jk have lt: "j < k" by simp
      with k' have "2 * j + 1 \<le> ?N" by linarith
      then have "real (2 * j + 1) \<le> real ?N" by (simp only: of_nat_le_iff)
      then have "2 * real j + 1 \<le> real ?N" by simp
      then have "(2 * real j + 1) * u \<le> real ?N * u"
        using u0 by (intro mult_right_mono)
      with nu have "(2 * real j + 1) * u \<le> 1" by simp
      from bins_increase [OF err u1 val this lt] show ?thesis by (simp add: nj nk)
    qed
  qed
  then have "sorted frequencies" by (simp add: sorted_iff_nth_mono)
  then show ?thesis by (simp add: fs ms)
qed



lemma analyze_spectrum_pair: "analyze_spectrum exact [1, 1] 2 = Inr ([0, 1], [2, 0])"
  by (simp add: analyze_spectrum_def rfftfreq_def rfft_def dft_coefficient_def arange_def
        Let_def exp_minus exact_def)

lemma analyze_spectrum_nyquist_pair:
  "analyze_spectrum exact [1, - 1] 8000 = Inr ([0, 4000], [0, 2])"
  by (simp add: analyze_spectrum_def rfftfreq_def rfft_def dft_coefficient_def arange_def
        Let_def exp_minus exact_def)

lemma analyze_spectrum_sorted_double:
  assumes "length signal_data \<le> 2 ^ 53" and "0 < sample_rate"
    and "analyze_spectrum round_double signal_data sample_rate = Inr (frequencies, magnitudes)"
  shows "sorted frequencies \<and> length magnitudes = length frequencies"
proof -
  have "real (length signal_data) \<le> real (2 ^ 53)" using assms(1) by (simp only: of_nat_le_iff)
  then have "real (length signal_data) * (1 / 2 ^ 53) \<le> 1" by simp
  from analyze_spectrum_sorted [OF round_double_relative _ _ this assms(2,3)]
  show ?thesis by simp
qed

lemma analyze_spectrum_sorted_exact:
  assumes "0 < sample_rate"
    and "analyze_spectrum exact signal_data sample_rate = Inr (frequencies, magnitudes)"
  shows "sorted frequencies \<and> length magnitudes = length frequencies"
proof -
  have "\<forall>x. \<bar>exact x - x\<bar> \<le> 0 * \<bar>x\<bar>" by (simp add: exact_def)
  from analyze_spectrum_sorted [OF this _ _ _ assms]
  show ?thesis by simp
qed

section \<open>The carrier of an analysed signal\<close>

lemma twiddle_cis:
  "exp (- (2 * of_real pi * \<i> * of_nat m * of_nat k / of_nat n)) =
     cis (- (2 * pi * real m * real k / real n))"
proof -
  have "- (2 * of_real pi * \<i> * of_nat m * of_nat k / of_nat n) =
        \<i> * complex_of_real (- (2 * pi * real m * real k / real n))"
    by simp
  then show ?thesis by (simp only: cis_conv_exp)
qed

lemma dft_term_norm:
  "cmod (of_real x * exp (- (2 * of_real pi * \<i> * of_nat m * of_nat k / of_nat n))) = \<bar>x\<bar>"
  by (simp only: twiddle_cis norm_mult norm_of_real norm_cis mult_1_right)

lemma one_minus_cis_less_2:
  assumes "0 < t" and "t < pi"
  shows "cmod (1 - cis (- t)) < 2"
proof -
  have c: "- 1 < cos t"
    using cos_monotone_0_pi [of t pi] assms by simp
  have "(cmod (1 - cis (- t)))\<^sup>2 = (1 - cos t)\<^sup>2 + (sin t)\<^sup>2"
    by (simp add: cmod_power2)
  also have "\<dots> = 2 - 2 * cos t"
    using sin_cos_squared_add [of t] by (simp add: power2_eq_square algebra_simps)
  also have "\<dots> < 2\<^sup>2" using c by simp
  finally show ?thesis by (rule power2_less_imp_less) simp
qed

lemma dft_coefficient_below_length:
  assumes a0: "a ! 0 = 1" and a1: "a ! 1 = - 1" and le: "\<forall>m < length a. \<bar>a ! m\<bar> \<le> 1"
    and k0: "0 < k" and kn: "2 * k < length a"
  shows "cmod (dft_coefficient a k) < real (length a)"
proof -
  let ?n = "length a"
  let ?t = "\<lambda>m. of_real (a ! m) *
                exp (- (2 * of_real pi * \<i> * of_nat m * of_nat k / of_nat ?n))"
  have n2: "2 \<le> ?n" using k0 kn by linarith
  have split: "{..<?n} = {0, 1} \<union> {2..<?n}" using n2 by auto
  have "dft_coefficient a k = (\<Sum>m<?n. ?t m)" by (rule dft_coefficient_sum)
  also have "\<dots> = (\<Sum>m\<in>{0, 1}. ?t m) + (\<Sum>m\<in>{2..<?n}. ?t m)"
    unfolding split by (rule sum.union_disjoint) auto
  finally have d: "dft_coefficient a k = (?t 0 + ?t 1) + (\<Sum>m\<in>{2..<?n}. ?t m)" by simp
  have t0: "?t 0 = 1" using a0 by simp
  have t1: "?t 1 = - cis (- (2 * pi * real k / real ?n))"
    using a1 twiddle_cis [of 1 k ?n] by simp
  have "0 < ?n" using n2 by linarith
  then have rn: "0 < real ?n" by (simp only: of_nat_0_less_iff)
  have rk: "0 < real k" using k0 by simp
  have th: "0 < 2 * pi * real k / real ?n"
    using rn rk by (intro divide_pos_pos mult_pos_pos) simp_all
  have "2 * real k < real ?n" using kn by (metis of_nat_less_iff of_nat_mult of_nat_numeral)
  then have "2 * real k / real ?n < 1" using rn by simp
  then have "pi * (2 * real k / real ?n) < pi * 1"
    by (intro mult_strict_left_mono) simp_all
  then have tp: "2 * pi * real k / real ?n < pi" by (simp add: algebra_simps)
  have first: "cmod (?t 0 + ?t 1) < 2"
    using one_minus_cis_less_2 [OF th tp] by (simp only: t0 t1) simp
  have "cmod (\<Sum>m\<in>{2..<?n}. ?t m) \<le> (\<Sum>m\<in>{2..<?n}. cmod (?t m))" by (rule norm_sum)
  also have "\<dots> = (\<Sum>m\<in>{2..<?n}. \<bar>a ! m\<bar>)" by (simp only: dft_term_norm)
  also have "\<dots> \<le> (\<Sum>m\<in>{2..<?n}. 1)" using le by (intro sum_mono) simp
  also have "\<dots> = real ?n - 2" using n2 by simp
  finally have rest: "cmod (\<Sum>m\<in>{2..<?n}. ?t m) \<le> real ?n - 2" .
  have "cmod (dft_coefficient a k) \<le> cmod (?t 0 + ?t 1) + cmod (\<Sum>m\<in>{2..<?n}. ?t m)"
    unfolding d by (rule norm_triangle_ineq)
  with first rest show ?thesis by linarith
qed

lemma dft_coefficient_nyquist:
  assumes "length a = 2 * h" and "0 < h"
  shows "dft_coefficient a h = (\<Sum>m<length a. of_real (a ! m * (- 1) ^ m))"
proof -
  have e: "exp (- (2 * of_real pi * \<i> * of_nat m * of_nat h / of_nat (length a))) =
             (- 1 :: complex) ^ m" for m
  proof -
    have "- (2 * of_real pi * \<i> * of_nat m * of_nat h / of_nat (length a)) =
          of_nat m * (- (\<i> * complex_of_real pi))"
      using assms by (simp add: field_simps)
    then have "exp (- (2 * of_real pi * \<i> * of_nat m * of_nat h / of_nat (length a))) =
          exp (- (\<i> * complex_of_real pi)) ^ m"
      by (simp only: exp_of_nat_mult)
    then show ?thesis by (simp add: exp_minus)
  qed
  show ?thesis by (simp only: dft_coefficient_sum e) simp
qed

text \<open>The four rounded operations behind the last bin of 22 samples at 8000 Hz.\<close>

lemma double_reciprocal_8000: "round_double (1 / 8000) = 4611686018427388 / 2 ^ 65"
proof -
  have "round_double (1 / 8000) = of_int (round_half_even (1 / 8000 * 2 ^ 65)) / 2 ^ 65"
    by (rule round_double_scaled) simp_all
  moreover have "round_half_even (1 / 8000 * 2 ^ 65) = 4611686018427388"
    by (simp add: round_half_even_def Let_def)
  ultimately show ?thesis by simp
qed

lemma double_22_spacings:
  "round_double (22 * (4611686018427388 / 2 ^ 65)) = 6341068275337658 / 2 ^ 61"
proof -
  have "round_double (22 * (4611686018427388 / 2 ^ 65)) =
          of_int (round_half_even (22 * (4611686018427388 / 2 ^ 65) * 2 ^ 61)) / 2 ^ 61"
    by (rule round_double_scaled) simp_all
  moreover have "round_half_even (22 * (4611686018427388 / 2 ^ 65) * 2 ^ 61) = 6341068275337658"
    by (simp add: round_half_even_def Let_def)
  ultimately show ?thesis by simp
qed

lemma double_val_22_8000:
  "round_double (1 / (6341068275337658 / 2 ^ 61)) = 6397158561605819 / 2 ^ 44"
proof -
  have "round_double (1 / (6341068275337658 / 2 ^ 61)) =
          of_int (round_half_even (1 / (6341068275337658 / 2 ^ 61) * 2 ^ 44)) / 2 ^ 44"
    by (rule round_double_scaled) simp_all
  moreover have "round_half_even (1 / (6341068275337658 / 2 ^ 61) * 2 ^ 44) = 6397158561605819"
    by (simp add: round_half_even_def Let_def)
  ultimately show ?thesis by simp
qed

lemma double_bin_11: "round_double (11 * (6397158561605819 / 2 ^ 44)) = 4000 + 1 / 2 ^ 41"
proof -
  have "round_double (11 * (6397158561605819 / 2 ^ 44)) =
          of_int (round_half_even (11 * (6397158561605819 / 2 ^ 44) * 2 ^ 41)) / 2 ^ 41"
    by (rule round_double_scaled) simp_all
  moreover have "round_half_even (11 * (6397158561605819 / 2 ^ 44) * 2 ^ 41) = 8796093022208001"
    by (simp add: round_half_even_def Let_def)
  ultimately show ?thesis by simp
qed

lemma alternating_22_length: "length alternating_22 = 22"
  by (simp add: alternating_22_def)

lemma alternating_22_spectrum:
  "analyze_spectrum round_double alternating_22 8000 =
     Inr (map (\<lambda>k. round_double (real k * (6397158561605819 / 2 ^ 44))) [0..<12],
          map (\<lambda>k. cmod (dft_coefficient alternating_22 k)) [0..<12])"
proof -
  have n: "real (length alternating_22) = 22" by (simp add: alternating_22_length)
  have nd: "round_double (real (length alternating_22) * round_double (1 / 8000)) =
              6341068275337658 / 2 ^ 61"
    by (simp only: n double_reciprocal_8000 double_22_spacings)
  have val: "round_double (1 / round_double (real (length alternating_22) *
                                              round_double (1 / 8000))) =
               6397158561605819 / 2 ^ 44"
    by (simp only: nd double_val_22_8000)
  have bins: "length alternating_22 div 2 + 1 = 12" by (simp add: alternating_22_length)
  have ne: "alternating_22 \<noteq> []" by (simp add: alternating_22_def)
  have nz: "round_double (real (length alternating_22) * round_double (1 / 8000)) \<noteq> 0"
    by (simp only: nd) simp
  have "analyze_spectrum round_double alternating_22 8000 =
          Inr (map (\<lambda>k. round_double (real k *
                    round_double (1 / round_double (real (length alternating_22) *
                                                    round_double (1 / 8000)))))
                   [0..<length alternating_22 div 2 + 1],
               map (\<lambda>k. cmod (dft_coefficient alternating_22 k))
                   [0..<length alternating_22 div 2 + 1])"
    using ne nz
    by (intro analyze_spectrum_returns
          [where fl = round_double and signal_data = alternating_22 and sample_rate = 8000])
       simp_all
  then show ?thesis by (simp only: val bins)
qed

lemma alternating_22_nyquist: "dft_coefficient alternating_22 11 = 22"
proof -
  have "dft_coefficient alternating_22 11 =
          (\<Sum>m<length alternating_22. of_real (alternating_22 ! m * (- 1) ^ m))"
    by (rule dft_coefficient_nyquist) (simp_all add: alternating_22_length)
  also have "\<dots> = of_real (\<Sum>m<22. alternating_22 ! m * (- 1) ^ m)"
    by (simp add: alternating_22_length)
  also have "(\<Sum>m<22. alternating_22 ! m * (- 1) ^ m) = (22 :: real)"
    by (simp add: alternating_22_def eval_nat_numeral lessThan_Suc)
  finally show ?thesis by simp
qed

lemma alternating_22_below:
  assumes "0 < k" and "k < 11"
  shows "cmod (dft_coefficient alternating_22 k) < 22"
proof -
  have "\<forall>x \<in> set alternating_22. \<bar>x\<bar> \<le> 1" by (simp add: alternating_22_def)
  then have le: "\<forall>m < length alternating_22. \<bar>alternating_22 ! m\<bar> \<le> 1"
    using nth_mem by blast
  have "cmod (dft_coefficient alternating_22 k) < real (length alternating_22)"
    using assms le
    by (intro dft_coefficient_below_length) (simp_all add: alternating_22_def)
  then show ?thesis by (simp add: alternating_22_length)
qed

lemma alternating_22_carrier:
  "find_carrier_frequency
     (map (\<lambda>k. round_double (real k * (6397158561605819 / 2 ^ 44))) [0..<12])
     (map (\<lambda>k. cmod (dft_coefficient alternating_22 k)) [0..<12]) =
   Inr (4000 + 1 / 2 ^ 41)"
proof -
  let ?V = "6397158561605819 / 2 ^ 44 :: real"
  let ?fs = "map (\<lambda>k. round_double (real k * ?V)) [0..<12]"
  let ?ms = "map (\<lambda>k. cmod (dft_coefficient alternating_22 k)) [0..<12]"
  have fn: "?fs ! k = round_double (real k * ?V)" if "k < 12" for k
    using that by (simp del: upt_Suc upt_rec_numeral)
  have mn: "?ms ! k = cmod (dft_coefficient alternating_22 k)" if "k < 12" for k
    using that by (simp del: upt_Suc upt_rec_numeral)
  have len: "length ?ms = length ?fs" by simp
  have p: "11 < length ?fs" by simp
  have above: "1000 < ?fs ! 3"
  proof -
    have "3 * ?V * (1 - 1 / 2 ^ 53) \<le> round_double (3 * ?V)"
      using rounding_lower [OF round_double_relative, of "3 * ?V"] by simp
    moreover have "1000 < 3 * ?V * (1 - 1 / 2 ^ 53)" by simp
    ultimately have "1000 < round_double (3 * ?V)" by linarith
    then show ?thesis using fn [of 3] by simp
  qed
  have below: "\<forall>j < 3. ?fs ! j \<le> 1000"
  proof (intro allI impI)
    fix j :: nat assume j: "j < 3"
    have "round_double (real j * ?V) \<le> real j * ?V * (1 + 1 / 2 ^ 53)"
      using rounding_upper [OF round_double_relative, of "real j * ?V"] by simp
    moreover have "real j \<le> 2" using j by simp
    then have "real j * (?V * (1 + 1 / 2 ^ 53)) \<le> 2 * (?V * (1 + 1 / 2 ^ 53))"
      by (intro mult_right_mono) simp_all
    moreover have "2 * (?V * (1 + 1 / 2 ^ 53)) \<le> 1000" by simp
    ultimately have "round_double (real j * ?V) \<le> 1000" by (simp add: mult.assoc)
    then show "?fs ! j \<le> 1000" using fn [of j] j by simp
  qed
  have peak: "\<forall>j. 3 \<le> j \<and> j < length ?ms \<and> j \<noteq> 11 \<longrightarrow> ?ms ! j < ?ms ! 11"
  proof (intro allI impI)
    fix j assume "3 \<le> j \<and> j < length ?ms \<and> j \<noteq> 11"
    then have j: "0 < j" "j < 11" "j < 12" by simp_all
    have "?ms ! j < 22" using alternating_22_below [OF j(1,2)] mn [OF j(3)] by simp
    moreover have "?ms ! 11 = 22" using mn [of 11] by (simp add: alternating_22_nyquist)
    ultimately show "?ms ! j < ?ms ! 11" by simp
  qed
  have "find_carrier_frequency ?fs ?ms = Inr (?fs ! 11)"
    using len _ p above below peak
    by (rule find_carrier_frequency_unique_peak) simp
  moreover have "?fs ! 11 = 4000 + 1 / 2 ^ 41"
    using fn [of 11] double_bin_11 by simp
  ultimately show ?thesis by (simp only:)
qed

text \<open>
  Claim C10, as the code has it. For a non-empty spectrum (equally long sequences)
  \<open>find_carrier_frequency\<close> returns an element of the frequency sequence. When the
  spectrum is the one that \<open>analyze_spectrum\<close> returns for a non-empty signal and a
  positive sample rate, computed with a rounding of relative error at most \<open>u < 1\<close>, the
  carrier is at least 0 and at most the Nyquist frequency, half the sample rate, times
  \<open>((1 + u) / (1 - u))\<^sup>2\<close>: the Nyquist frequency itself in exact arithmetic (\<open>u = 0\<close>), a few
  units in the last place more in float64 (\<open>u = 2\<^sup>-\<^sup>5\<^sup>3\<close>).
\<close>

theorem find_carrier_frequency_in_spectrum:
  "(frequencies \<noteq> [] \<and> length magnitudes = length frequencies \<longrightarrow>
      (\<exists>f \<in> set frequencies. find_carrier_frequency frequencies magnitudes = Inr f)) \<and>
   ((\<forall>x. \<bar>fl x - x\<bar> \<le> u * \<bar>x\<bar>) \<and> 0 \<le> u \<and> u < 1 \<and>
    signal_data \<noteq> [] \<and> 0 < sample_rate \<and>
    analyze_spectrum fl signal_data sample_rate = Inr (frequencies', magnitudes') \<longrightarrow>
      (\<exists>f. find_carrier_frequency frequencies' magnitudes' = Inr f \<and>
           0 \<le> f \<and> f \<le> sample_rate / 2 * ((1 + u) / (1 - u))\<^sup>2))"
proof (intro conjI impI)
  assume a: "frequencies \<noteq> [] \<and> length magnitudes = length frequencies"
  then obtain p where "p < length frequencies"
    "find_carrier_frequency frequencies magnitudes = Inr (frequencies ! p)"
    using find_carrier_frequency_index [of magnitudes frequencies] by blast
  then show "\<exists>f \<in> set frequencies. find_carrier_frequency frequencies magnitudes = Inr f"
    by (metis nth_mem)
next
  let ?N = "length signal_data"
  assume a: "(\<forall>x. \<bar>fl x - x\<bar> \<le> u * \<bar>x\<bar>) \<and> 0 \<le> u \<and> u < 1 \<and>
    signal_data \<noteq> [] \<and> 0 < sample_rate \<and>
    analyze_spectrum fl signal_data sample_rate = Inr (frequencies', magnitudes')"
  then have err: "\<forall>x. \<bar>fl x - x\<bar> \<le> u * \<bar>x\<bar>" and u0: "0 \<le> u" and u1: "u < 1"
    and ne: "signal_data \<noteq> []" and R: "0 < sample_rate"
    and an: "analyze_spectrum fl signal_data sample_rate = Inr (frequencies', magnitudes')"
    by simp_all
  have N: "0 < ?N" using ne by simp
  have fs: "frequencies' =
              map (\<lambda>k. fl (real k * fl (1 / fl (real ?N * fl (1 / sample_rate)))))
                  [0..<?N div 2 + 1]"
    using analyze_spectrum_form [OF an] by simp
  have len: "length magnitudes' = length frequencies'"
    using analyze_spectrum_lengths [OF an] by simp
  have "frequencies' \<noteq> []" using analyze_spectrum_lengths(1) [OF an] by auto
  with len obtain p where p: "p < length frequencies'"
    "find_carrier_frequency frequencies' magnitudes' = Inr (frequencies' ! p)"
    using find_carrier_frequency_index [of magnitudes' frequencies'] by blast
  from p(1) have p': "p < ?N div 2 + 1" by (simp add: fs)
  then have k: "2 * p \<le> ?N" by linarith
  have "frequencies' ! p = fl (real p * fl (1 / fl (real ?N * fl (1 / sample_rate))))"
    unfolding fs using p' by (simp del: upt_Suc)
  with bin_bounds [OF err u0 u1 R N k]
  have "0 \<le> frequencies' ! p \<and>
        frequencies' ! p \<le> sample_rate / 2 * ((1 + u) / (1 - u))\<^sup>2"
    by simp
  with p(2) show "\<exists>f. find_carrier_frequency frequencies' magnitudes' = Inr f \<and>
           0 \<le> f \<and> f \<le> sample_rate / 2 * ((1 + u) / (1 - u))\<^sup>2"
    by blast
qed

theorem find_carrier_frequency_in_spectrum_witness:
  "([0, 500, 1000 :: real] \<noteq> [] \<and> length [2, 5, 5 :: real] = length [0, 500, 1000 :: real]) \<and>
   (\<exists>f \<in> set [0, 500, 1000]. find_carrier_frequency [0, 500, 1000] [2, 5, 5] = Inr f) \<and>
   (\<forall>x. \<bar>round_double x - x\<bar> \<le> (1 / 2 ^ 53) * \<bar>x\<bar>) \<and>
   alternating_22 \<noteq> [] \<and>
   analyze_spectrum round_double alternating_22 8000 =
     Inr (map (\<lambda>k. round_double (real k * (6397158561605819 / 2 ^ 44))) [0..<12],
          map (\<lambda>k. cmod (dft_coefficient alternating_22 k)) [0..<12]) \<and>
   find_carrier_frequency
     (map (\<lambda>k. round_double (real k * (6397158561605819 / 2 ^ 44))) [0..<12])
     (map (\<lambda>k. cmod (dft_coefficient alternating_22 k)) [0..<12]) = Inr (4000 + 1 / 2 ^ 41) \<and>
   (0 :: real) \<le> 4000 + 1 / 2 ^ 41 \<and>
   (4000 + 1 / 2 ^ 41 :: real) \<le> 8000 / 2 * ((1 + 1 / 2 ^ 53) / (1 - 1 / 2 ^ 53))\<^sup>2"
proof -
  let ?fs = "map (\<lambda>k. round_double (real k * (6397158561605819 / 2 ^ 44))) [0..<12]"
  let ?ms = "map (\<lambda>k. cmod (dft_coefficient alternating_22 k)) [0..<12]"
  have h1: "[0, 500, 1000 :: real] \<noteq> [] \<and> length [2, 5, 5 :: real] = length [0, 500, 1000 :: real]"
    by simp
  have ne: "alternating_22 \<noteq> []" by (simp add: alternating_22_def)
  have h2: "(\<forall>x. \<bar>round_double x - x\<bar> \<le> (1 / 2 ^ 53) * \<bar>x\<bar>) \<and> (0 :: real) \<le> 1 / 2 ^ 53 \<and>
            (1 / 2 ^ 53 :: real) < 1 \<and> alternating_22 \<noteq> [] \<and> (0 :: real) < 8000 \<and>
            analyze_spectrum round_double alternating_22 8000 = Inr (?fs, ?ms)"
    using round_double_relative ne alternating_22_spectrum by simp
  have m: "\<exists>f \<in> set [0, 500, 1000]. find_carrier_frequency [0, 500, 1000] [2, 5, 5] = Inr f"
    using find_carrier_frequency_in_spectrum
            [where frequencies = "[0, 500, 1000]" and magnitudes = "[2, 5, 5]"] h1
    by blast
  have "\<exists>f. find_carrier_frequency ?fs ?ms = Inr f \<and> 0 \<le> f \<and>
            f \<le> 8000 / 2 * ((1 + 1 / 2 ^ 53) / (1 - 1 / 2 ^ 53))\<^sup>2"
    using find_carrier_frequency_in_spectrum
            [where fl = round_double and u = "1 / 2 ^ 53" and signal_data = alternating_22
               and sample_rate = 8000 and frequencies' = ?fs and magnitudes' = ?ms] h2
    by blast
  then have b: "(0 :: real) \<le> 4000 + 1 / 2 ^ 41 \<and>
      (4000 + 1 / 2 ^ 41 :: real) \<le> 8000 / 2 * ((1 + 1 / 2 ^ 53) / (1 - 1 / 2 ^ 53))\<^sup>2"
    by (simp only: alternating_22_carrier) blast
  from h1 m round_double_relative ne alternating_22_spectrum alternating_22_carrier b
  show ?thesis by blast
qed

text \<open>
  Claim C10 bounds the carrier by the Nyquist frequency itself. In float64 the last bin
  of 22 samples at 8000 Hz is \<open>4000 + 2\<^sup>-\<^sup>4\<^sup>1\<close>, and it is the carrier of the alternating
  signal.
\<close>

theorem main_carrier_freq_above_nyquist_counterexample:
  "main_carrier_freq round_double alternating_22 8000 = Inr (4000 + 1 / 2 ^ 41) \<and>
   \<not> (4000 + 1 / 2 ^ 41 :: real) \<le> 8000 / 2"
proof -
  have "main_carrier_freq round_double alternating_22 8000 = Inr (4000 + 1 / 2 ^ 41)"
    by (simp only: main_carrier_freq_def alternating_22_spectrum sum.case prod.case
          alternating_22_carrier)
  then show ?thesis by simp
qed

section \<open>Demodulation\<close>

lemma demodulate_am_length:
  "length (demodulate_am signal_data sample_rate carrier_freq) = length signal_data"
  by (simp add: demodulate_am_def arange_def Let_def)

lemma demodulate_am_nth:
  assumes "sample_rate \<noteq> 0" and "i < length signal_data"
  shows "demodulate_am signal_data sample_rate carrier_freq ! i =
           Finite (signal_data ! i * cos (2 * pi * carrier_freq * (real i / sample_rate)))"
  using assms by (simp add: demodulate_am_def arange_def Let_def np_true_divide_def)

lemma demodulate_am_zero_rate:
  "demodulate_am [1, 1] 0 f = [NaN, NaN]"
  by (simp add: demodulate_am_def arange_def Let_def np_true_divide_def inf_times_def)

text \<open>
  Claim C5. For a signal \<open>s\<close> of length \<open>N\<close>, a positive sample rate \<open>R\<close> and a carrier
  frequency \<open>f\<close>, \<open>demodulate_am\<close> returns a signal of length \<open>N\<close> whose \<open>i\<close>-th sample is
  the finite number \<open>s\<^sub>i cos (2 \<pi> f i / R)\<close>.
\<close>

theorem demodulate_am_samples:
  assumes "0 < sample_rate"
  shows "length (demodulate_am signal_data sample_rate carrier_freq) = length signal_data \<and>
         (\<forall>i < length signal_data.
            demodulate_am signal_data sample_rate carrier_freq ! i =
              Finite (signal_data ! i * cos (2 * pi * carrier_freq * real i / sample_rate)))"
  using assms by (simp add: demodulate_am_length demodulate_am_nth)

theorem demodulate_am_samples_witness:
  "0 < (4 :: real) \<and>
   length (demodulate_am [1, 2, 3] 4 1) = length [1, 2, 3 :: real] \<and>
   demodulate_am [1, 2, 3] 4 1 ! 2 = Finite ([1, 2, 3] ! 2 * cos (2 * pi * 1 * real 2 / 4))"
proof -
  have h: "0 < (4 :: real)" by simp
  have i: "2 < length [1, 2, 3 :: real]" by simp
  from demodulate_am_samples [OF h, of "[1, 2, 3]" 1] h i
  show ?thesis by blast
qed

text \<open>
  Claim C9. For a positive sample rate every output sample of \<open>demodulate_am\<close> is finite
  and no larger in magnitude than the input sample at the same index, and a zero input
  sample gives a zero output sample.
\<close>

theorem demodulate_am_no_gain:
  assumes "0 < sample_rate"
  shows "\<forall>i < length signal_data.
           \<exists>y. demodulate_am signal_data sample_rate carrier_freq ! i = Finite y \<and>
               \<bar>y\<bar> \<le> \<bar>signal_data ! i\<bar> \<and> (signal_data ! i = 0 \<longrightarrow> y = 0)"
proof (intro allI impI)
  fix i assume i: "i < length signal_data"
  let ?c = "cos (2 * pi * carrier_freq * (real i / sample_rate))"
  have "demodulate_am signal_data sample_rate carrier_freq ! i = Finite (signal_data ! i * ?c)"
    using assms i by (simp add: demodulate_am_nth)
  moreover have "\<bar>signal_data ! i * ?c\<bar> \<le> \<bar>signal_data ! i\<bar>"
  proof -
    have "\<bar>signal_data ! i * ?c\<bar> = \<bar>signal_data ! i\<bar> * \<bar>?c\<bar>" by (rule abs_mult)
    also have "\<dots> \<le> \<bar>signal_data ! i\<bar> * 1"
      by (intro mult_left_mono abs_cos_le_one) simp
    finally show ?thesis by simp
  qed
  ultimately show "\<exists>y. demodulate_am signal_data sample_rate carrier_freq ! i = Finite y \<and>
               \<bar>y\<bar> \<le> \<bar>signal_data ! i\<bar> \<and> (signal_data ! i = 0 \<longrightarrow> y = 0)"
    by simp
qed

theorem demodulate_am_no_gain_witness:
  "0 < (4 :: real) \<and>
   (\<exists>y. demodulate_am [1, 0, 3] 4 1 ! 2 = Finite y \<and> \<bar>y\<bar> \<le> \<bar>[1, 0, 3] ! 2\<bar>) \<and>
   (\<exists>y. demodulate_am [1, 0, 3] 4 1 ! 1 = Finite y \<and> \<bar>y\<bar> \<le> \<bar>[1, 0, 3] ! 1\<bar> \<and> y = 0)"
proof -
  have h: "0 < (4 :: real)" by simp
  have i: "2 < length [1, 0, 3 :: real]" "1 < length [1, 0, 3 :: real]"
    "[1, 0, 3 :: real] ! 1 = 0" by simp_all
  from demodulate_am_no_gain [OF h, of "[1, 0, 3]" 1] h i
  show ?thesis by blast
qed

lemma demodulate_am_example:
  "demodulate_am [1, 2, 3] 4 1 = [Finite 1, Finite 0, Finite (- 3)]"
  by (simp add: demodulate_am_def arange_def Let_def np_true_divide_def cos_pi_half)

section \<open>Loading\<close>

lemma sum_list_lower: "(\<forall>x \<in> set xs. lo \<le> x) \<Longrightarrow> lo * real (length xs) \<le> sum_list xs"
  by (induction xs) (auto simp: algebra_simps)

lemma sum_list_upper: "(\<forall>x \<in> set xs. x \<le> hi) \<Longrightarrow> sum_list xs \<le> hi * real (length xs)"
  by (induction xs) (auto simp: algebra_simps)

lemma set_channels: "set (channels row) = set_frame row"
  by (cases row) auto

lemma channels_nonempty: "0 < length (channels row)"
  by (cases row) simp

lemma mean_bounds:
  assumes "\<forall>x \<in> set_frame row. lo \<le> x \<and> x \<le> hi"
  shows "lo \<le> mean row \<and> mean row \<le> hi"
proof -
  let ?xs = "channels row"
  have n: "0 < real (length ?xs)" using channels_nonempty [of row] by simp
  have "lo * real (length ?xs) \<le> sum_list ?xs"
    using assms by (intro sum_list_lower) (simp add: set_channels)
  moreover have "sum_list ?xs \<le> hi * real (length ?xs)"
    using assms by (intro sum_list_upper) (simp add: set_channels)
  ultimately show ?thesis using n by (simp add: mean_def field_simps)
qed

lemma set_frame_map: "set_frame (map_frame f row) = f ` set_frame row"
  by (cases row) auto

lemma set_ndarray_map: "set_ndarray (map_ndarray f a) = f ` set_ndarray a"
  by (cases a) (auto simp: set_frame_map)

lemma mono_bounds:
  assumes "\<forall>x \<in> set_ndarray a. lo \<le> x \<and> x \<le> hi"
    and "y \<in> set (case a of Arr1 xs \<Rightarrow> xs | Arr2 rows \<Rightarrow> map mean rows)"
  shows "lo \<le> (y::real) \<and> y \<le> hi"
proof (cases a)
  case (Arr1 xs)
  with assms show ?thesis by simp
next
  case (Arr2 rows)
  with assms(2) obtain row where row: "row \<in> set rows" "y = mean row" by auto
  with assms(1) Arr2 have "\<forall>x \<in> set_frame row. lo \<le> x \<and> x \<le> hi" by auto
  from mean_bounds [OF this] row(2) show ?thesis by simp
qed

lemma scaled_bounds:
  assumes "0 < m" and "- (m + 1) \<le> v" and "v \<le> m"
  shows "- (1 + 1 / real_of_int m) \<le> real_of_int v / real_of_int m \<and>
         real_of_int v / real_of_int m \<le> 1"
proof -
  have m: "0 < real_of_int m" using assms(1) by simp
  have "- (real_of_int m + 1) \<le> real_of_int v" using assms(2) by linarith
  then have "- (real_of_int m + 1) / real_of_int m \<le> real_of_int v / real_of_int m"
    using m by (simp add: divide_right_mono)
  moreover have "- (real_of_int m + 1) / real_of_int m = - (1 + 1 / real_of_int m)"
    using m by (simp add: field_simps)
  moreover have "real_of_int v \<le> real_of_int m" using assms(3) by simp
  then have "real_of_int v / real_of_int m \<le> 1" using m by simp
  ultimately show ?thesis by simp
qed

lemma sint16_range: "- 32768 \<le> sint (x :: 16 word) \<and> sint x \<le> 32767"
  using sint_ge [of x] sint_lt [of x] by simp

lemma sint32_range: "- 2147483648 \<le> sint (x :: 32 word) \<and> sint x \<le> 2147483647"
  using sint_ge [of x] sint_lt [of x] by simp

lemma sint64_range:
  "- 9223372036854775808 \<le> sint (x :: 64 word) \<and> sint x \<le> 9223372036854775807"
  using sint_ge [of x] sint_lt [of x] by simp

lemma load_audio_snd:
  "snd (load_audio file) =
     (case (if dtype_kind (data file) = CHR ''i''
            then map_ndarray (\<lambda>x. x / real_of_int (iinfo_max (data file)))
                   (astype_float (data file))
            else astype_float (data file)) of
        Arr1 xs \<Rightarrow> xs | Arr2 rows \<Rightarrow> map mean rows)"
  by (simp add: load_audio_def Let_def split: ndarray.splits)

lemma signed_scaled_elements:
  assumes "dtype_kind d = CHR ''i''"
    and "x \<in> set_ndarray (map_ndarray (\<lambda>x. x / real_of_int (iinfo_max d)) (astype_float d))"
  shows "- (1 + 1 / real_of_int (iinfo_max d)) \<le> x \<and> x \<le> 1"
proof (cases d)
  case (UInt8Arr a)
  with assms(1) show ?thesis by simp
next
  case (Int16Arr a)
  with assms(2) have "x \<in> (\<lambda>w. real_of_int (sint w) / real_of_int 32767) ` set_ndarray a"
    by (simp add: set_ndarray_map image_image)
  then obtain w :: "16 word" where "x = real_of_int (sint w) / real_of_int 32767"
    by blast
  with scaled_bounds [of 32767 "sint w"] sint16_range [of w] Int16Arr show ?thesis by simp
next
  case (Int32Arr a)
  with assms(2) have "x \<in> (\<lambda>w. real_of_int (sint w) / real_of_int 2147483647) ` set_ndarray a"
    by (simp add: set_ndarray_map image_image)
  then obtain w :: "32 word" where "x = real_of_int (sint w) / real_of_int 2147483647"
    by blast
  with scaled_bounds [of 2147483647 "sint w"] sint32_range [of w] Int32Arr show ?thesis by simp
next
  case (Int64Arr a)
  with assms(2) have "x \<in> (\<lambda>w. real_of_int (sint w) / real_of_int 9223372036854775807) ` set_ndarray a"
    by (simp add: set_ndarray_map image_image)
  then obtain w :: "64 word" where "x = real_of_int (sint w) / real_of_int 9223372036854775807"
    by blast
  with scaled_bounds [of 9223372036854775807 "sint w"] sint64_range [of w] Int64Arr
  show ?thesis by simp
next
  case (Float32Arr a)
  with assms(1) show ?thesis by simp
next
  case (Float64Arr a)
  with assms(1) show ?thesis by simp
qed

text \<open>
  Claim C3, as the code has it. The divisor is the largest value of the dtype, one less
  than the magnitude of its smallest value. For signed-integer PCM (dtype kind \<open>i\<close>) every
  sample that \<open>load_audio\<close> returns lies between \<open>- (1 + 1 / max)\<close> and \<open>1\<close>, where \<open>max\<close> is
  that largest value. Any other input, unsigned 8-bit PCM and floating point, is not
  rescaled: the result holds the file's numbers, averaged over the channels when there
  are several.
\<close>

theorem load_audio_signed_range:
  "(dtype_kind (data file) = CHR ''i'' \<longrightarrow>
      (\<forall>x \<in> set (snd (load_audio file)).
         - (1 + 1 / real_of_int (iinfo_max (data file))) \<le> x \<and> x \<le> 1)) \<and>
   (dtype_kind (data file) \<noteq> CHR ''i'' \<longrightarrow>
      load_audio file =
        (rate file, case astype_float (data file) of
                      Arr1 xs \<Rightarrow> xs | Arr2 rows \<Rightarrow> map mean rows))"
proof (intro conjI)
  show "dtype_kind (data file) = CHR ''i'' \<longrightarrow>
      (\<forall>x \<in> set (snd (load_audio file)).
         - (1 + 1 / real_of_int (iinfo_max (data file))) \<le> x \<and> x \<le> 1)"
  proof (intro impI ballI)
  fix x
  assume k: "dtype_kind (data file) = CHR ''i''" and x: "x \<in> set (snd (load_audio file))"
  let ?a = "map_ndarray (\<lambda>x. x / real_of_int (iinfo_max (data file)))
              (astype_float (data file))"
  have el: "\<forall>x \<in> set_ndarray ?a.
              - (1 + 1 / real_of_int (iinfo_max (data file))) \<le> x \<and> x \<le> 1"
    using signed_scaled_elements [OF k] by blast
  from x k have "x \<in> set (case ?a of Arr1 xs \<Rightarrow> xs | Arr2 rows \<Rightarrow> map mean rows)"
    by (simp add: load_audio_snd)
  from mono_bounds [OF el this]
  show "- (1 + 1 / real_of_int (iinfo_max (data file))) \<le> x \<and> x \<le> 1" .
  qed
next
  show "dtype_kind (data file) \<noteq> CHR ''i'' \<longrightarrow>
      load_audio file =
        (rate file, case astype_float (data file) of
                      Arr1 xs \<Rightarrow> xs | Arr2 rows \<Rightarrow> map mean rows)"
    by (simp add: load_audio_def Let_def split: ndarray.splits)
qed

text \<open>
  Claim C3 asks for samples in \<open>[-1, 1]\<close>. The most negative 16-bit sample is mapped
  below \<open>-1\<close>.
\<close>

theorem load_audio_int16_min_counterexample:
  "dtype_kind (Int16Arr (Arr1 [- 32768])) = CHR ''i'' \<and>
   load_audio \<lparr>rate = 8000, data = Int16Arr (Arr1 [- 32768])\<rparr> = (8000, [- 32768 / 32767]) \<and>
   (- 32768 / 32767 :: real) < - 1"
  by (simp add: load_audio_def Let_def)

theorem load_audio_signed_range_witness:
  "dtype_kind (Int16Arr (Arr2 [Frame 32767 (- 32768) []])) = CHR ''i'' \<and>
   snd (load_audio \<lparr>rate = 8000, data = Int16Arr (Arr2 [Frame 32767 (- 32768) []])\<rparr>) =
     [- 1 / 65534] \<and>
   - (1 + 1 / real_of_int (iinfo_max (Int16Arr (Arr2 [Frame 32767 (- 32768) []])))) \<le>
     (- 1 / 65534 :: real) \<and>
   (- 1 / 65534 :: real) \<le> 1 \<and>
   dtype_kind (Float64Arr (Arr1 [3 / 2])) \<noteq> CHR ''i'' \<and>
   load_audio \<lparr>rate = 8000, data = Float64Arr (Arr1 [3 / 2])\<rparr> = (8000, [3 / 2])"
proof -
  let ?stereo = "\<lparr>rate = 8000, data = Int16Arr (Arr2 [Frame 32767 (- 32768) []])\<rparr>"
  let ?float = "\<lparr>rate = 8000, data = Float64Arr (Arr1 [3 / 2])\<rparr>"
  have k: "dtype_kind (data ?stereo) = CHR ''i''" by simp
  have v: "snd (load_audio ?stereo) = [- 1 / 65534]"
    by (simp add: load_audio_def Let_def mean_def)
  from load_audio_signed_range [of ?stereo] k
  have "\<forall>x \<in> set (snd (load_audio ?stereo)).
          - (1 + 1 / real_of_int (iinfo_max (data ?stereo))) \<le> x \<and> x \<le> 1"
    by blast
  then have b: "- (1 + 1 / real_of_int (iinfo_max (Int16Arr (Arr2 [Frame 32767 (- 32768) []]))))
                  \<le> (- 1 / 65534 :: real) \<and> (- 1 / 65534 :: real) \<le> 1"
    unfolding v by simp
  have f: "dtype_kind (data ?float) \<noteq> CHR ''i''" by simp
  from load_audio_signed_range [of ?float] f
  have l: "load_audio ?float = (8000, [3 / 2])" by simp
  from k v b f l show ?thesis by simp
qed

lemma load_audio_stereo_example:
  "load_audio \<lparr>rate = 8000, data = Int16Arr (Arr2 [Frame 32767 (- 32768) []])\<rparr> =
     (8000, [- 1 / 65534])"
  by (simp add: load_audio_def Let_def mean_def)

lemma load_audio_uint8_example:
  "load_audio \<lparr>rate = 8000, data = UInt8Arr (Arr1 [0, 128, 255])\<rparr> = (8000, [0, 128, 255])"
  by (simp add: load_audio_def Let_def)

section \<open>Saving and the round trip\<close>

lemma amax_Max:
  assumes "xs \<noteq> []"
  shows "amax xs = Inr (Max (set xs))"
proof -
  from assms obtain x rest where xs: "xs = x # rest" by (cases xs) auto
  have "fold max rest x = Max (set (x # rest))" by (rule Max.set_eq_fold [symmetric])
  then show ?thesis by (simp add: xs amax_def)
qed

lemma amax_empty: "amax [] = Inl ValueError"
  by (simp add: amax_def)



lemma peak_zero:
  assumes "signal_data \<noteq> []" and "\<forall>x \<in> set signal_data. x = (0::real)"
  shows "Max (set (map abs signal_data)) = 0"
proof -
  have "set (map abs signal_data) = {0}" using assms by (cases signal_data) auto
  then show ?thesis by simp
qed








lemma wavfile_write_fits:
  assumes "fs < 2 ^ 31" and "length samples \<le> 2147483629"
  shows "wavfile_write fs samples = Inr \<lparr>rate = fs, data = Int16Arr (Arr1 samples)\<rparr>"
  using assms by (simp add: wavfile_write_def Let_def)

lemma wavfile_write_rate_overflow:
  assumes "2 ^ 31 \<le> fs"
  shows "wavfile_write fs samples = Inl StructError"
  using assms by (simp add: wavfile_write_def Let_def)

lemma save_audio_empty: "save_audio cast_undef [] sample_rate = Inl ValueError"
  by (simp add: save_audio_def amax_def)



lemma save_audio_all_zero:
  assumes ne: "signal_data \<noteq> []" and z: "\<forall>x \<in> set signal_data. x = 0"
  shows "save_audio cast_undef signal_data sample_rate =
           wavfile_write sample_rate (replicate (length signal_data) (cast_undef NaN))"
proof -
  have am: "amax (map abs signal_data) = Inr 0"
    using ne peak_zero [OF ne z] amax_Max [of "map abs signal_data"] by simp
  have "map (\<lambda>x. astype_int16 cast_undef (np_multiply (np_true_divide x 0) (Finite 32767)))
          signal_data = replicate (length signal_data) (cast_undef NaN)"
    using z by (intro nth_equalityI)
      (simp_all add: np_true_divide_def inf_times_def astype_int16_def)
  then show ?thesis
    unfolding save_audio_def am by (simp add: Let_def o_def)
qed

text \<open>
  Claim C6, as the code has it. No stage tests for a degenerate signal. A zero-length
  signal makes \<open>save_audio\<close> raise ValueError (the maximum of an empty array) and
  \<open>analyze_spectrum\<close> raise ZeroDivisionError. A non-empty all-zero signal makes
  \<open>save_audio\<close> raise nothing of its own: the peak is 0, every normalised sample is
  \<open>0 / 0 = NaN\<close>, and the samples handed to \<^verbatim>\<open>wavfile.write\<close> are whatever the cast of NaN
  gives, as many as the signal has; when the sample rate is below \<open>2\<^sup>3\<^sup>1\<close> and the signal
  has at most 2147483629 samples, so that the header fields hold them, that file is
  written.
\<close>

theorem save_audio_degenerate:
  "(signal_data = [] \<longrightarrow> save_audio cast_undef signal_data sample_rate = Inl ValueError) \<and>
   (signal_data \<noteq> [] \<and> (\<forall>x \<in> set signal_data. x = 0) \<longrightarrow>
      save_audio cast_undef signal_data sample_rate =
        wavfile_write sample_rate (replicate (length signal_data) (cast_undef NaN))) \<and>
   (signal_data \<noteq> [] \<and> (\<forall>x \<in> set signal_data. x = 0) \<and>
    sample_rate < 2 ^ 31 \<and> length signal_data \<le> 2147483629 \<longrightarrow>
      save_audio cast_undef signal_data sample_rate =
        Inr \<lparr>rate = sample_rate,
             data = Int16Arr (Arr1 (replicate (length signal_data) (cast_undef NaN)))\<rparr>) \<and>
   analyze_spectrum exact [] rate' = Inl ZeroDivisionError \<and>
   analyze_spectrum round_double [] rate' = Inl ZeroDivisionError"
proof (intro conjI impI)
  assume "signal_data = []"
  then show "save_audio cast_undef signal_data sample_rate = Inl ValueError"
    by (simp add: save_audio_empty)
next
  assume "signal_data \<noteq> [] \<and> (\<forall>x \<in> set signal_data. x = 0)"
  then show "save_audio cast_undef signal_data sample_rate =
        wavfile_write sample_rate (replicate (length signal_data) (cast_undef NaN))"
    using save_audio_all_zero by blast
next
  assume a: "signal_data \<noteq> [] \<and> (\<forall>x \<in> set signal_data. x = 0) \<and>
    sample_rate < 2 ^ 31 \<and> length signal_data \<le> 2147483629"
  then have "save_audio cast_undef signal_data sample_rate =
        wavfile_write sample_rate (replicate (length signal_data) (cast_undef NaN))"
    using save_audio_all_zero by blast
  moreover have "wavfile_write sample_rate (replicate (length signal_data) (cast_undef NaN)) =
        Inr \<lparr>rate = sample_rate,
             data = Int16Arr (Arr1 (replicate (length signal_data) (cast_undef NaN)))\<rparr>"
    using a by (intro wavfile_write_fits) simp_all
  ultimately show "save_audio cast_undef signal_data sample_rate =
        Inr \<lparr>rate = sample_rate,
             data = Int16Arr (Arr1 (replicate (length signal_data) (cast_undef NaN)))\<rparr>"
    by simp
next
  show "analyze_spectrum exact [] rate' = Inl ZeroDivisionError"
    using exact_zero by (rule analyze_spectrum_empty)
next
  show "analyze_spectrum round_double [] rate' = Inl ZeroDivisionError"
    using round_double_zero by (rule analyze_spectrum_empty)
qed

theorem save_audio_degenerate_witness:
  "save_audio cast_to_zero [] 8000 = Inl ValueError \<and>
   [0, 0, 0 :: real] \<noteq> [] \<and> list_all (\<lambda>x. x = 0) [0, 0, 0 :: real] \<and>
   (8000 :: nat) < 2 ^ 31 \<and> length [0, 0, 0 :: real] \<le> 2147483629 \<and>
   save_audio cast_to_zero [0, 0, 0] 8000 =
     wavfile_write 8000 (replicate (length [0, 0, 0 :: real]) (cast_to_zero NaN)) \<and>
   save_audio cast_to_zero [0, 0, 0] 8000 =
     Inr \<lparr>rate = 8000,
          data = Int16Arr (Arr1 (replicate (length [0, 0, 0 :: real]) (cast_to_zero NaN)))\<rparr> \<and>
   analyze_spectrum exact [] 8000 = Inl ZeroDivisionError \<and>
   analyze_spectrum round_double [] 8000 = Inl ZeroDivisionError"
proof -
  have h: "[0, 0, 0 :: real] \<noteq> [] \<and> (\<forall>x \<in> set [0, 0, 0 :: real]. x = 0) \<and>
           (8000 :: nat) < 2 ^ 31 \<and> length [0, 0, 0 :: real] \<le> 2147483629"
    by simp
  have h': "[0, 0, 0 :: real] \<noteq> [] \<and> list_all (\<lambda>x. x = 0) [0, 0, 0 :: real]" by simp
  from save_audio_degenerate [of "[]" cast_to_zero 8000 8000]
    save_audio_degenerate [of "[0, 0, 0]" cast_to_zero 8000 8000] h h'
  show ?thesis by blast
qed

text \<open>
  Claim C6 asks for an explicit failure on an all-zero signal. \<open>save_audio\<close> returns
  normally on it, with NaN as the normalised samples.
\<close>

theorem save_audio_silent_counterexample:
  "np_true_divide 0 0 = NaN \<and>
   save_audio cast_to_zero [0, 0] 8000 =
     Inr \<lparr>rate = 8000, data = Int16Arr (Arr1 [cast_to_zero NaN, cast_to_zero NaN])\<rparr>"
  by (simp add: save_audio_def amax_def np_true_divide_def inf_times_def astype_int16_def
        wavfile_write_def Let_def)




lemma save_load_example:
  "save_audio cast_to_zero [1 / 2, - 1 / 4] 8000 =
     Inr \<lparr>rate = 8000, data = Int16Arr (Arr1 [32767, - 16383])\<rparr>"
  by (simp add: save_audio_def amax_def np_true_divide_def astype_int16_def
        trunc_toward_zero_def wavfile_write_def Let_def)

lemma save_audio_size_limit:
  "wavfile_write 8000 (replicate 2147483630 0) = Inl ValueError"
  by (simp add: wavfile_write_def Let_def)

section \<open>Band-pass filter stage\<close>

lemma apply_bandpass_filter_rejected:
  assumes "sample_rate \<noteq> 0"
    and "butter order [lowcut / (0.5 * sample_rate), highcut / (0.5 * sample_rate)] = Inl e"
  shows "apply_bandpass_filter butter filtfilt signal_data sample_rate lowcut highcut order =
           ([Butter order [lowcut / (0.5 * sample_rate), highcut / (0.5 * sample_rate)]], Inl e)"
  using assms by (simp add: apply_bandpass_filter_def Let_def)

lemma apply_bandpass_filter_accepted:
  assumes "sample_rate \<noteq> 0"
    and "butter order [lowcut / (0.5 * sample_rate), highcut / (0.5 * sample_rate)] = Inr ba"
  shows "apply_bandpass_filter butter filtfilt signal_data sample_rate lowcut highcut order =
           ([Butter order [lowcut / (0.5 * sample_rate), highcut / (0.5 * sample_rate)],
             Filtfilt ba signal_data], filtfilt ba signal_data)"
  using assms by (simp add: apply_bandpass_filter_def Let_def)

lemma apply_bandpass_filter_zero_rate:
  "apply_bandpass_filter butter filtfilt signal_data 0 lowcut highcut order =
     ([], Inl ZeroDivisionError)"
  by (simp add: apply_bandpass_filter_def)

text \<open>
  Claim C7, as the code has it. The stage does not look at the cutoffs. For a nonzero
  sample rate and any cutoffs, it divides them by the Nyquist frequency and calls the
  filter-design routine with the result, first of all; when the design routine rejects
  them, that error leaves the stage and the filter is not applied; and every error of the
  stage is one that the design routine or the filter application raised.
\<close>

theorem apply_bandpass_filter_no_check:
  assumes "sample_rate \<noteq> 0"
  shows "(\<exists>calls. fst (apply_bandpass_filter butter filtfilt signal_data sample_rate
                         lowcut highcut order) =
            Butter order [lowcut / (0.5 * sample_rate), highcut / (0.5 * sample_rate)] # calls) \<and>
         (\<forall>e. butter order [lowcut / (0.5 * sample_rate), highcut / (0.5 * sample_rate)] = Inl e \<longrightarrow>
            apply_bandpass_filter butter filtfilt signal_data sample_rate lowcut highcut order =
              ([Butter order [lowcut / (0.5 * sample_rate), highcut / (0.5 * sample_rate)]],
               Inl e)) \<and>
         (\<forall>e. snd (apply_bandpass_filter butter filtfilt signal_data sample_rate
                      lowcut highcut order) = Inl e \<longrightarrow>
            butter order [lowcut / (0.5 * sample_rate), highcut / (0.5 * sample_rate)] = Inl e \<or>
            (\<exists>ba. butter order [lowcut / (0.5 * sample_rate), highcut / (0.5 * sample_rate)] = Inr ba \<and>
                  filtfilt ba signal_data = Inl e))"
proof (cases "butter order [lowcut / (0.5 * sample_rate), highcut / (0.5 * sample_rate)]")
  case (Inl e)
  with assms show ?thesis by (simp add: apply_bandpass_filter_def Let_def)
next
  case (Inr ba)
  with assms show ?thesis by (simp add: apply_bandpass_filter_def Let_def)
qed

theorem apply_bandpass_filter_no_check_witness:
  "(44100 :: real) \<noteq> 0 \<and>
   butter_range_check 5 [20 / (0.5 * 44100), 30000 / (0.5 * 44100)] = Inl ValueError \<and>
   apply_bandpass_filter butter_range_check filtfilt_passthrough [1, 2, 3] 44100 20 30000 5 =
     ([Butter 5 [20 / (0.5 * 44100), 30000 / (0.5 * 44100)]], Inl ValueError)"
proof -
  have h: "(44100 :: real) \<noteq> 0" by simp
  have b: "butter_range_check 5 [20 / (0.5 * 44100), 30000 / (0.5 * 44100)] = Inl ValueError"
    by (simp add: butter_range_check_def)
  from apply_bandpass_filter_no_check
         [where sample_rate = 44100 and butter = butter_range_check
            and filtfilt = filtfilt_passthrough and signal_data = "[1, 2, 3]"
            and lowcut = 20 and highcut = 30000 and order = 5] b h
  show ?thesis by blast
qed

text \<open>
  Claim C7 asks for a check before filter design executes. With a high cutoff above the
  Nyquist frequency the design routine is called all the same, and the error is the one
  it raises.
\<close>

theorem apply_bandpass_filter_design_runs_counterexample:
  "\<not> (0 < (20 :: real) \<and> (20 :: real) < 30000 \<and> (30000 :: real) < 0.5 * 44100) \<and>
   apply_bandpass_filter butter_range_check filtfilt_passthrough [1, 2, 3] 44100 20 30000 5 =
     ([Butter 5 [20 / 22050, 30000 / 22050]], Inl ValueError)"
  by (simp add: apply_bandpass_filter_def butter_range_check_def Let_def)

lemma apply_bandpass_filter_valid_example:
  "apply_bandpass_filter butter_range_check filtfilt_passthrough [1, 2, 3] 44100 20 6000 5 =
     ([Butter 5 [20 / 22050, 6000 / 22050], Filtfilt () [1, 2, 3]], Inr [1, 2, 3])"
  by (simp add: apply_bandpass_filter_def butter_range_check_def filtfilt_passthrough_def Let_def)

end
